(* ===== verification/Prelude.thy ===== *)
theory Prelude
  imports Main "HOL-Library.Word"
begin

text \<open>
  Shared vocabulary of the development: the machine types of the Go code, the ways a Go
  call can end, big-endian reads and writes on byte slices, and the generic list, map and
  word lemmas the components use. The collections are \<open>go_simps\<close> (equations of the
  outcome type) and \<open>bytes_simps\<close> (reads after writes on byte slices).
\<close>

unbundle bit_operations_syntax

named_theorems go_simps
named_theorems bytes_simps

section \<open>Machine types\<close>

type_synonym u8 = "8 word"
type_synonym u16 = "16 word"
type_synonym u32 = "32 word"
type_synonym bytes = "u8 list"

section \<open>How a Go call ends\<close>

text \<open>
  \<open>Return\<close> is an ordinary return (an error return is a value inside it), \<open>Panic\<close> a
  run-time panic (nil dereference, slice bounds, close of a closed channel), \<open>Fatal\<close> the
  process exit of \<open>log.Fatal\<close>.
\<close>

datatype 'a go = Return 'a | Panic | Fatal

fun go_bind :: "'a go \<Rightarrow> ('a \<Rightarrow> 'b go) \<Rightarrow> 'b go" where
  "go_bind (Return x) f = f x"
| "go_bind Panic f = Panic"
| "go_bind Fatal f = Fatal"

lemma go_bind_Return_iff [go_simps]:
  "go_bind m f = Return y \<longleftrightarrow> (\<exists>x. m = Return x \<and> f x = Return y)"
  by (cases m) auto

lemma go_bind_assoc [go_simps]: "go_bind (go_bind m f) g = go_bind m (\<lambda>x. go_bind (f x) g)"
  by (cases m) auto

section \<open>Word values as naturals\<close>

lemma unat_u8_less [simp]: "unat (b :: u8) < 256"
  using unsigned_less [of b, where 'a = nat] by simp

lemma unat_u16_less [simp]: "unat (w :: u16) < 65536"
  using unsigned_less [of w, where 'a = nat] by simp

lemma unat_u32_less [simp]: "unat (w :: u32) < 4294967296"
  using unsigned_less [of w, where 'a = nat] by simp

lemma unat_u8_u16 [simp]: "unat (ucast (b :: u8) :: u16) = unat b"
  by (simp add: unsigned_ucast_eq take_bit_nat_eq_self less_trans [OF unat_u8_less])

lemma unat_u8_u32 [simp]: "unat (ucast (b :: u8) :: u32) = unat b"
  by (simp add: unsigned_ucast_eq take_bit_nat_eq_self less_trans [OF unat_u8_less])

lemma unat_u16_u32 [simp]: "unat (ucast (w :: u16) :: u32) = unat w"
  by (simp add: unsigned_ucast_eq take_bit_nat_eq_self less_trans [OF unat_u16_less])

section \<open>Big-endian bytes\<close>

definition be16 :: "u16 \<Rightarrow> bytes" where
  "be16 w = [ucast (drop_bit 8 w), ucast w]"

definition be32 :: "u32 \<Rightarrow> bytes" where
  "be32 w = [ucast (drop_bit 24 w), ucast (drop_bit 16 w), ucast (drop_bit 8 w), ucast w]"

definition Uint16 :: "bytes \<Rightarrow> u16" where
  "Uint16 b = (ucast (b ! 1)) OR (push_bit 8 (ucast (b ! 0)))"

definition Uint32 :: "bytes \<Rightarrow> u32" where
  "Uint32 b = (ucast (b ! 3)) OR (push_bit 8 (ucast (b ! 2)))
     OR (push_bit 16 (ucast (b ! 1))) OR (push_bit 24 (ucast (b ! 0)))"

lemma length_be16 [simp]: "length (be16 w) = 2"
  by (simp add: be16_def)

lemma length_be32 [simp]: "length (be32 w) = 4"
  by (simp add: be32_def)

lemma Uint16_be16 [simp]: "Uint16 (be16 w) = w"
  by (rule bit_word_eqI) (auto simp: Uint16_def be16_def bit_simps)

lemma Uint32_be32 [simp]: "Uint32 (be32 w) = w"
proof (rule bit_word_eqI)
  fix n :: nat
  assume "n < LENGTH(32)"
  then show "bit (Uint32 (be32 w)) n \<longleftrightarrow> bit w n"
    by (cases "n < 24"; cases "n < 16") (auto simp: Uint32_def be32_def bit_simps)
qed

section \<open>Slices\<close>

text \<open>
  \<open>slice b i j\<close> is Go's \<open>b[i:j]\<close> and \<open>copy_at i src b\<close> a write of \<open>src\<close> at offset \<open>i\<close>
  (\<open>PutUint16\<close>, \<open>PutUint32\<close>, an index assignment or \<open>copy\<close>), both for offsets in range;
  where an offset can be out of range the models test for it first.
\<close>

definition slice :: "'a list \<Rightarrow> nat \<Rightarrow> nat \<Rightarrow> 'a list" where
  "slice b i j = take (j - i) (drop i b)"

definition copy_at :: "nat \<Rightarrow> 'a list \<Rightarrow> 'a list \<Rightarrow> 'a list" where
  "copy_at i src b = take i b @ src @ drop (i + length src) b"

lemma length_slice [simp]: "length (slice b i j) = min (length b - i) (j - i)"
  by (simp add: slice_def)

lemma slice_append_exact:
  "i = length pre \<Longrightarrow> j = length pre + length mid \<Longrightarrow> slice (pre @ mid @ post) i j = mid"
  by (simp add: slice_def)

lemma length_copy_at [simp]:
  "i + length src \<le> length b \<Longrightarrow> length (copy_at i src b) = length b"
  by (simp add: copy_at_def)

lemma copy_at_append:
  "i = length pre \<Longrightarrow> copy_at i src (pre @ suf) = pre @ src @ drop (length src) suf"
  by (simp add: copy_at_def)

lemma copy_at_0 [bytes_simps]: "copy_at 0 src b = src @ drop (length src) b"
  by (simp add: copy_at_def)

lemma copy_at_Nil [simp]: "copy_at i [] b = b"
  by (simp add: copy_at_def)

lemma copy_at_skip [bytes_simps]:
  "length pre \<le> i \<Longrightarrow> copy_at i src (pre @ suf) = pre @ copy_at (i - length pre) src suf"
  by (simp add: copy_at_def)

lemma copy_at_skip_Cons [bytes_simps]:
  "0 < i \<Longrightarrow> copy_at i src (x # suf) = x # copy_at (i - 1) src suf"
  by (simp add: copy_at_def take_Cons' drop_Cons')

lemma slice_0 [bytes_simps]: "j = length mid \<Longrightarrow> slice (mid @ post) 0 j = mid"
  by (simp add: slice_def)

lemma slice_skip [bytes_simps]:
  "length pre \<le> i \<Longrightarrow> slice (pre @ suf) i j = slice suf (i - length pre) (j - length pre)"
  by (simp add: slice_def)

lemma slice_skip_Cons [bytes_simps]:
  "0 < i \<Longrightarrow> slice (x # suf) i j = slice suf (i - 1) (j - 1)"
  by (cases i; cases j) (simp_all add: slice_def)

lemma length_copy_at_ge: "length b \<le> length (copy_at i src b)"
  unfolding copy_at_def by (simp add: min_def) arith

lemma take_copy_at_before: "k \<le> i \<Longrightarrow> k \<le> length b \<Longrightarrow> take k (copy_at i src b) = take k b"
  by (simp add: copy_at_def min_def)

lemma slice_copy_at_same:
  "i + length src \<le> length b \<Longrightarrow> j = i + length src \<Longrightarrow> slice (copy_at i src b) i j = src"
  by (simp add: slice_def copy_at_def min_def)

section \<open>Lists and maps\<close>

lemma list_of_length_ge_split:
  "n \<le> length xs \<Longrightarrow> \<exists>ys zs. xs = ys @ zs \<and> length ys = n"
  by (metis append_take_drop_id length_take min.absorb2)

lemma map_upd_absorb: "m k = Some v \<Longrightarrow> m(k \<mapsto> v) = m"
  by auto

section \<open>Machines\<close>

text \<open>
  A component with a step relation and a condition every step keeps: then every run keeps it.
\<close>

locale machine =
  fixes step :: "'s \<Rightarrow> 's \<Rightarrow> bool" and inv :: "'s \<Rightarrow> bool"
  assumes kept: "inv s \<Longrightarrow> step s s' \<Longrightarrow> inv s'"
begin

lemma run_kept: "step\<^sup>*\<^sup>* s s' \<Longrightarrow> inv s \<Longrightarrow> inv s'"
  by (induction rule: rtranclp_induct) (auto intro: kept)

lemma later_step_kept: "step\<^sup>*\<^sup>* s s' \<Longrightarrow> inv s \<Longrightarrow> step s' s'' \<Longrightarrow> inv s''"
  by (blast intro: kept run_kept)

end

end
