(* ===== verification/Payload_Pool.thy ===== *)
theory Payload_Pool
  imports Prelude
begin

text \<open>
  \<open>lib/pool.go\<close>: the payload chunks. The ring pool itself is third-party code: it appears as
  the script of its answers to \<open>GetElement\<close> (\<open>answers\<close>, one answer per call, \<open>None\<close> for a nil
  element) and the record of what was given back to it (\<open>returned\<close>). Nothing is assumed of
  the answers.
\<close>

section \<open>The code\<close>

definition bufferLength :: nat where
  [simp]: "bufferLength = 65536"

record payload =
  payloadBytes :: bytes
  payloadLength :: nat

definition go_copy :: "'a list \<Rightarrow> 'a list \<Rightarrow> 'a list" where
  \<comment> \<open>Go's \<open>copy(dst, src)\<close>: as many elements as the shorter of the two has\<close>
  "go_copy dst src = take (length dst) src @ drop (length src) dst"

definition SetEmptySlice :: "nat \<Rightarrow> bytes" where
  "SetEmptySlice n = replicate n 0"

definition NewPayload :: "nat \<Rightarrow> bytes \<Rightarrow> payload option \<times> bytes" where
  \<comment> \<open>number of calling parameters, and the global \<open>emptySlice\<close> it may initialise\<close>
  "NewPayload nparams emptySlice =
     (if nparams \<noteq> 1 then (None, emptySlice)
      else (Some \<lparr> payloadBytes = replicate bufferLength 0, payloadLength = 0 \<rparr>,
            if length emptySlice = 0 then SetEmptySlice bufferLength else emptySlice))"

definition SetContent :: "bytes \<Rightarrow> payload \<Rightarrow> payload" where
  "SetContent s p = p\<lparr> payloadBytes := s, payloadLength := length s \<rparr>"

definition Reset :: "bytes \<Rightarrow> payload \<Rightarrow> payload" where
  "Reset emptySlice p = p\<lparr> payloadBytes := go_copy (payloadBytes p) emptySlice, payloadLength := 0 \<rparr>"

datatype copy_error = SourceTooLong | SourceEmpty | NilChunk

definition Copy :: "bytes \<Rightarrow> payload \<Rightarrow> copy_error option \<times> payload" where
  "Copy src p =
     (if length src > length (payloadBytes p) then (Some SourceTooLong, p)
      else if length src = 0 then (Some SourceEmpty, p)
      else (None, p\<lparr> payloadBytes := go_copy (payloadBytes p) src, payloadLength := length src \<rparr>))"

definition GetSlice :: "payload \<Rightarrow> bytes" where
  "GetSlice p = take (payloadLength p) (payloadBytes p)"

section \<open>The third-party ring pool, by its interaction\<close>

record element =
  elem_id :: nat
  Data :: payload

record ring_pool =
  answers :: "element option list"
  returned :: "nat list"

definition GetElement :: "ring_pool \<Rightarrow> element option \<times> ring_pool" where
  "GetElement rp =
     (case answers rp of [] \<Rightarrow> (None, rp) | a # rest \<Rightarrow> (a, rp\<lparr> answers := rest \<rparr>))"

definition ReturnElement :: "element \<Rightarrow> ring_pool \<Rightarrow> ring_pool" where
  "ReturnElement e rp = rp\<lparr> returned := returned rp @ [elem_id e] \<rparr>"

section \<open>Lemmas\<close>

lemma length_go_copy [simp]: "length (go_copy dst src) = length dst"
  by (simp add: go_copy_def)

lemma take_go_copy [simp]: "length src \<le> length dst \<Longrightarrow> take (length src) (go_copy dst src) = src"
  by (simp add: go_copy_def)

lemma Copy_ok_iff: "fst (Copy src p) = None \<longleftrightarrow> src \<noteq> [] \<and> length src \<le> length (payloadBytes p)"
  by (auto simp: Copy_def)

lemma Copy_frame: "length (payloadBytes (snd (Copy src p))) = length (payloadBytes p)"
  by (simp add: Copy_def)

lemma Copy_slice: "fst (Copy src p) = None \<Longrightarrow> GetSlice (snd (Copy src p)) = src"
  by (auto simp: Copy_def GetSlice_def split: if_splits)

section \<open>Properties\<close>

text \<open>
  A chunk gives back exactly the bytes copied into it, whatever it held before: for any
  source of 1 to 65536 bytes, a new payload that was filled with \<open>old\<close> and reset still copies
  it, and reads it back whole, with no byte of the old content in the slice.
\<close>

theorem payload_copy_roundtrip:
  assumes "src \<noteq> []" "length src \<le> 65536" "NewPayload 1 empt = (Some p, e')"
  shows "fst (Copy src (Reset e' (snd (Copy old p)))) = None
    \<and> GetSlice (snd (Copy src (Reset e' (snd (Copy old p))))) = src"
proof -
  have "length (payloadBytes (Reset e' (snd (Copy old p)))) = 65536"
    using assms(3) Copy_frame [of old p] by (auto simp: NewPayload_def Reset_def)
  then have "fst (Copy src (Reset e' (snd (Copy old p)))) = None"
    using assms by (simp add: Copy_ok_iff)
  then show ?thesis by (simp add: Copy_slice)
qed

theorem payload_copy_roundtrip_witness:
  "GetSlice (snd (Copy [7] (Reset (SetEmptySlice 65536)
     (snd (Copy [1, 2, 3] \<lparr> payloadBytes = replicate 65536 0, payloadLength = 0 \<rparr>))))) = [7]"
  using payload_copy_roundtrip [of "[7]" "[]" "\<lparr> payloadBytes = replicate 65536 0, payloadLength = 0 \<rparr>"
      "SetEmptySlice 65536" "[1, 2, 3]"]
  by (simp add: NewPayload_def)

end
