(* ===== verification/Conn_Types.thy ===== *)
theory Conn_Types
  imports Prelude Payload_Pool
begin

text \<open>
  The constants of \<open>lib/constant.go\<close> and the data of \<open>lib/packet.go\<close> and
  \<open>lib/connection.go\<close>: options, packets, configuration and the connection itself. A pointer to
  the owning connection inside a packet is left out (the operations that follow it take the
  connection as an argument). Channels are the lists of what was sent on them and not yet
  received; a channel that is only ever closed is the flag that it was. Times are nanoseconds.
\<close>

section \<open>Constants\<close>

definition SynReceived :: nat where [simp]: "SynReceived = 1"
definition SynAckSent :: nat where [simp]: "SynAckSent = 2"
definition AckReceived :: nat where [simp]: "AckReceived = 3"
definition SynSent :: nat where [simp]: "SynSent = 1"
definition SynAckReceived :: nat where [simp]: "SynAckReceived = 2"
definition AckSent :: nat where [simp]: "AckSent = 3"
definition CallerFinSent :: nat where [simp]: "CallerFinSent = 1"
definition CallerAckSent :: nat where [simp]: "CallerAckSent = 3"
definition RespFinReceived :: nat where [simp]: "RespFinReceived = 1"
definition RespFinAckSent :: nat where [simp]: "RespFinAckSent = 2"
definition RespAckReceived :: nat where [simp]: "RespAckReceived = 3"

definition FINFlag :: u8 where [simp]: "FINFlag = 1"
definition SYNFlag :: u8 where [simp]: "SYNFlag = 2"
definition RSTFlag :: u8 where [simp]: "RSTFlag = 4"
definition ACKFlag :: u8 where [simp]: "ACKFlag = 16"

definition TcpOptionsMaxLength :: nat where [simp]: "TcpOptionsMaxLength = 40"
definition TcpHeaderLength :: nat where [simp]: "TcpHeaderLength = 20"
definition TcpPseudoHeaderLength :: nat where [simp]: "TcpPseudoHeaderLength = 12"

definition time_Second :: int where [simp]: "time_Second = 1000000000"
definition time_Millisecond :: int where [simp]: "time_Millisecond = 1000000"

section \<open>Options and packets\<close>

record sackblock =
  leftEdge :: u32
  rightEdge :: u32

record sackoption =
  blocks :: "sackblock list"

record options =
  windowScaleShiftCount :: u8
  mss :: u16
  permitSack :: bool
  SackEnabled :: bool
  timestampEnabled :: bool
  tsEchoReplyValue :: u32
  timestamp :: u32
  inSACKOption :: sackoption
  outSACKOption :: sackoption

definition zero_options :: options where
  \<comment> \<open>\<open>&options{}\<close>\<close>
  "zero_options = \<lparr> windowScaleShiftCount = 0, mss = 0, permitSack = False, SackEnabled = False,
     timestampEnabled = False, tsEchoReplyValue = 0, timestamp = 0,
     inSACKOption = \<lparr> blocks = [] \<rparr>, outSACKOption = \<lparr> blocks = [] \<rparr> \<rparr>"

text \<open>\<open>net.Addr\<close>: nil, or a \<open>*net.IPAddr\<close> with the bytes of its \<open>IP\<close>.\<close>

datatype addr = NilAddr | IPAddr bytes

record packet =
  SrcAddr :: addr
  DestAddr :: addr
  SourcePort :: u16
  DestinationPort :: u16
  SequenceNumber :: u32
  AcknowledgmentNum :: u32
  WindowSize :: u16
  Flags :: u8
  UrgentPointer :: u16
  Checksum :: u16
  Payload :: bytes
  TcpOptions :: "options option"
  IsOpenConnection :: bool
  chunk :: "element option"
  IsKeepAliveMassege :: bool

definition zero_packet :: packet where
  \<comment> \<open>\<open>&PcpPacket{}\<close>\<close>
  "zero_packet = \<lparr> SrcAddr = NilAddr, DestAddr = NilAddr, SourcePort = 0, DestinationPort = 0,
     SequenceNumber = 0, AcknowledgmentNum = 0, WindowSize = 0, Flags = 0, UrgentPointer = 0,
     Checksum = 0, Payload = [], TcpOptions = None, IsOpenConnection = False, chunk = None,
     IsKeepAliveMassege = False \<rparr>"

section \<open>Configuration\<close>

record ConnectionConfig =
  WindowScale :: int
  PreferredMSS :: int
  SackPermitSupport :: bool
  SackOptionSupport :: bool
  RetransmissionEnabled :: bool
  IdleTimeout :: int
  KeepAliveEnabled :: bool
  KeepaliveInterval :: int
  MaxKeepaliveAttempts :: int
  ResendInterval :: int
  MaxResendCount :: int
  Debug :: bool
  WindowSizeWithScale :: int
  ConnSignalRetryInterval :: int
  ConnSignalRetry :: int
  ConnectionInputQueue :: int
  ShowStatistics :: bool

definition DefaultConnectionConfig :: ConnectionConfig where
  "DefaultConnectionConfig =
     \<lparr> WindowScale = 14, PreferredMSS = 1400, SackPermitSupport = True, SackOptionSupport = True,
       RetransmissionEnabled = False, IdleTimeout = 25, KeepAliveEnabled = True,
       KeepaliveInterval = 5, MaxKeepaliveAttempts = 3, ResendInterval = 200, MaxResendCount = 5,
       Debug = False, WindowSizeWithScale = 12800, ConnSignalRetryInterval = 2,
       ConnSignalRetry = 5, ConnectionInputQueue = 1000, ShowStatistics = True \<rparr>"

section \<open>Packets kept for later: maps keyed by sequence number\<close>

record PacketInfo =
  LastSentTime :: int
  ResendCount :: int
  pData :: packet

record ReceivedPacket =
  ReceivedTime :: int
  Packet :: packet

text \<open>
  A Go map from sequence numbers, as an association list with distinct keys (the order of the
  list stands for the unspecified order of iteration); \<open>None\<close> is the nil map.
\<close>

type_synonym 'v seq_map = "(u32 \<times> 'v) list option"

section \<open>Timers\<close>

record timer =
  running :: bool
  period :: int

definition AfterFunc :: "int \<Rightarrow> timer" where
  "AfterFunc d = \<lparr> running = True, period = d \<rparr>"

definition timer_Stop :: "timer \<Rightarrow> timer" where
  "timer_Stop t = t\<lparr> running := False \<rparr>"

section \<open>The connection\<close>

record connectionParams =
  key :: string
  isServer :: bool
  remoteAddr :: addr
  localAddr :: addr
  remotePort :: int
  localPort :: int

record connection =
  params :: connectionParams
  config :: ConnectionConfig
  windowSize :: u16
  initialSeq :: u32
  initialPeerSeq :: u32
  nextSequenceNumber :: u32
  lastAckNumber :: u32
  termStartSeq :: u32
  termStartPeerSeq :: u32
  readChannel :: "packet list"
  readDeadline :: "int option"
  terminationCallerState :: nat
  terminationRespState :: nat
  initClientState :: nat
  initServerState :: nat
  connSignalTimer :: "timer option"
  connSignalRetryCount :: int
  tcpOptions :: options
  writeOnHold :: bool
  isOpenConnection :: bool
  isBidirectional :: bool
  keepaliveTimer :: "timer option"
  idleTimeout :: int
  timeoutCount :: int
  keepaliveInterval :: int
  isKeepAliveInProgress :: bool
  resendPackets :: "PacketInfo seq_map"
  resendInterval :: int
  resendTimer :: "timer option"
  revPacketCache :: "ReceivedPacket seq_map"
  isClosed :: bool
  connCloseBegins :: bool
  closeSignalClosed :: bool
  connSignalFailedClosed :: bool
  isConnSignalFailedAlreadyClosed :: bool
  rxCount :: int
  txCount :: int
  rxOooCount :: int
  outputChan :: "packet list"
  sigOutputChan :: "packet list option"
  newConnSignals :: nat
  connCloseSignals :: nat
  rpool :: ring_pool

end
