(* ===== verification/Checksum_Code.thy ===== *)
theory Checksum_Code
  imports Conn_Types
begin

text \<open>
  The checksum part of \<open>lib/packet.go\<close>: \<open>CalculateChecksum\<close>, \<open>assemblePseudoHeader\<close> and
  \<open>VerifyChecksum\<close>. \<open>To4\<close> is the standard library's \<open>net.IP.To4\<close>. The lemmas relate the
  32-bit accumulator with its two folds to one's complement addition of 16-bit words.
\<close>

section \<open>The code\<close>

fun cksum_loop :: "bytes \<Rightarrow> u32 \<Rightarrow> u32" where
  "cksum_loop (a # b # rest) cksum = cksum_loop rest (cksum + ucast (Uint16 [a, b]))"
| "cksum_loop [b] cksum = cksum + push_bit 8 (ucast b)"
| "cksum_loop [] cksum = cksum"

definition CalculateChecksum :: "bytes \<Rightarrow> u16" where
  "CalculateChecksum buffer =
     (let cksum = cksum_loop buffer 0;
          cksum1 = drop_bit 16 cksum + (cksum AND 0xffff);
          cksum2 = cksum1 + drop_bit 16 cksum1
      in NOT (ucast cksum2))"

definition To4 :: "bytes \<Rightarrow> bytes option" where
  "To4 ip =
     (if length ip = 4 then Some ip
      else if length ip = 16 \<and> take 10 ip = replicate 10 0 \<and> ip ! 10 = 0xff \<and> ip ! 11 = 0xff
      then Some (drop 12 ip)
      else None)"

datatype pseudo_error = PseudoBufferLength | SrcAddrNil | DstAddrNil

definition assemblePseudoHeader ::
  "bytes \<Rightarrow> addr \<Rightarrow> addr \<Rightarrow> u8 \<Rightarrow> u16 \<Rightarrow> (pseudo_error + bytes) go" where
  "assemblePseudoHeader buffer srcAddr dstAddr protocolId pcpFrameLength =
     (if length buffer \<noteq> TcpPseudoHeaderLength then Return (Inl PseudoBufferLength)
      else case srcAddr of NilAddr \<Rightarrow> Return (Inl SrcAddrNil)
      | IPAddr src \<Rightarrow> (case dstAddr of NilAddr \<Rightarrow> Return (Inl DstAddrNil)
      | IPAddr dst \<Rightarrow> (case (To4 src, To4 dst) of
          (Some srcIP, Some dstIP) \<Rightarrow>
            Return (Inr (copy_at 10 (be16 pcpFrameLength)
                    (copy_at 9 [protocolId]
                    (copy_at 8 [0]
                    (copy_at 4 (be32 (Uint32 dstIP))
                    (copy_at 0 (be32 (Uint32 srcIP)) buffer))))))
        | _ \<Rightarrow> Panic)))"

definition VerifyChecksum :: "bytes \<Rightarrow> addr \<Rightarrow> addr \<Rightarrow> u8 \<Rightarrow> (bool \<times> bytes) go" where
  \<comment> \<open>the verdict, and the buffer, whose first bytes the pseudo header overwrites\<close>
  "VerifyChecksum data srcAddr dstAddr protocolId =
     (if length data < TcpHeaderLength + TcpPseudoHeaderLength then Return (False, data)
      else
        let frame = drop TcpPseudoHeaderLength data;
            receivedChecksum = Uint16 (slice frame 16 18);
            data0 = copy_at (TcpPseudoHeaderLength + 16) (be16 0) data;
            pcpFrameLength = (word_of_nat (length frame) :: u16)
        in go_bind (assemblePseudoHeader (take TcpPseudoHeaderLength data0) srcAddr dstAddr
              protocolId pcpFrameLength)
            (\<lambda>r. case r of
                Inl e \<Rightarrow> Return (False, data0)
              | Inr ph \<Rightarrow>
                  let data1 = ph @ drop TcpPseudoHeaderLength data0;
                      calculatedChecksum = CalculateChecksum data1
                  in Return (receivedChecksum = calculatedChecksum,
                       copy_at (TcpPseudoHeaderLength + 16) (be16 receivedChecksum) data1)))"

section \<open>One's complement sums\<close>

fun words16 :: "bytes \<Rightarrow> u16 list" where
  "words16 (a # b # rest) = Uint16 [a, b] # words16 rest"
| "words16 [b] = [push_bit 8 (ucast b)]"
| "words16 [] = []"

definition ones_add :: "u16 \<Rightarrow> u16 \<Rightarrow> u16" where
  "ones_add a b = (let s = unat a + unat b in word_of_nat (if s < 65536 then s else s - 65535))"

definition ones_sum :: "u16 list \<Rightarrow> u16" where
  "ones_sum ws = foldr ones_add ws 0"

definition ones_norm :: "nat \<Rightarrow> nat" where
  "ones_norm s = (if s = 0 then 0 else (s - 1) mod 65535 + 1)"

lemma ones_norm_small: "s \<le> 131070 \<Longrightarrow> ones_norm s = (if s < 65536 then s else s - 65535)"
  by (auto simp: ones_norm_def mod_if)

lemma ones_norm_le: "ones_norm s \<le> 65535"
  by (auto simp: ones_norm_def Suc_leI)

lemma ones_norm_add: "ones_norm (x + ones_norm y) = ones_norm (x + y)"
proof (cases "y = 0")
  case False
  have "(x + (y - 1) mod 65535) mod 65535 = (x + (y - 1)) mod 65535" by (simp add: mod_add_right_eq)
  moreover have "x + (y - 1) = x + y - 1" using False by simp
  ultimately show ?thesis using False by (simp add: ones_norm_def)
qed (simp add: ones_norm_def)

lemma unat_ones_add: "unat (ones_add a b) = ones_norm (unat a + unat b)"
proof -
  have "unat a + unat b \<le> 131070" using unat_u16_less [of a] unat_u16_less [of b] by linarith
  then show ?thesis using ones_norm_small [of "unat a + unat b"]
    by (auto simp: ones_add_def Let_def unat_of_nat)
qed

lemma unat_ones_sum: "unat (ones_sum ws) = ones_norm (sum_list (map unat ws))"
proof (induction ws)
  case Nil
  then show ?case by (simp add: ones_sum_def ones_norm_def)
next
  case (Cons w ws)
  then show ?case by (simp add: ones_sum_def unat_ones_add ones_norm_add)
qed

lemma words16_bound: "sum_list (map unat (words16 b)) \<le> 65535 * ((length b + 1) div 2)"
proof (induction b rule: words16.induct)
  case (1 a b rest)
  have "unat (Uint16 [a, b]) \<le> 65535" using unat_u16_less [of "Uint16 [a, b]"] by linarith
  with 1 show ?case by simp
next
  case (2 b)
  have "unat (push_bit 8 (ucast b) :: u16) \<le> 65535"
    using unat_u16_less [of "push_bit 8 (ucast b)"] by linarith
  then show ?case by simp
qed simp

lemma unat_odd_byte: "unat (push_bit 8 (ucast (b :: u8)) :: u16) = unat (push_bit 8 (ucast b) :: u32)"
proof -
  have "unat b * 256 < 65536" "unat b * 256 < 4294967296" using unat_u8_less [of b] by linarith+
  then show ?thesis by (simp add: push_bit_eq_mult unat_word_ariths)
qed

lemma unat_cksum_loop:
  "unat c + sum_list (map unat (words16 b)) < 4294967296 \<Longrightarrow>
   unat (cksum_loop b c) = unat c + sum_list (map unat (words16 b))"
proof (induction b c rule: cksum_loop.induct)
  case (1 a b rest c)
  have "unat (c + ucast (Uint16 [a, b])) = unat c + unat (Uint16 [a, b])"
    using 1 by (simp add: unat_word_ariths)
  then show ?case using 1 by simp
next
  case (2 b c)
  then show ?case by (simp add: unat_word_ariths unat_odd_byte)
qed simp


text \<open>The two folds of the accumulator compute the one's complement residue.\<close>

lemma unat_fold:
  fixes c :: u32
  shows "unat (ucast (drop_bit 16 c + (c AND 0xffff) + drop_bit 16 (drop_bit 16 c + (c AND 0xffff))) :: u16)
    = ones_norm (unat c)"
proof -
  define h l t where "h = unat c div 65536" and "l = unat c mod 65536" and "t = h + l"
  have c: "unat c = 65536 * h + l" by (simp add: h_def l_def)
  have hl: "h < 65536" "l < 65536" using unat_u32_less [of c] unfolding h_def l_def by linarith+
  have d: "unat (drop_bit 16 c) = h" unfolding h_def unat_drop_bit_eq by (simp add: drop_bit_eq_div)
  have "c AND 0xffff = take_bit 16 c" by (simp add: take_bit_eq_mask mask_eq_exp_minus_1)
  then have "unat (c AND 0xffff) = take_bit 16 (unat c)" by (simp only: unsigned_take_bit_eq)
  then have a: "unat (c AND 0xffff) = l" unfolding l_def by (simp add: take_bit_eq_mod)
  have s: "unat (drop_bit 16 c + (c AND 0xffff)) = t"
    using hl by (simp add: t_def unat_word_ariths d a)
  have "unat (x + drop_bit 16 x) = t + t div 65536" if "unat x = t" for x :: u32
  proof -
    have "unat (drop_bit 16 x) = t div 65536"
      unfolding unat_drop_bit_eq using that by (simp add: drop_bit_eq_div)
    then have "unat (x + drop_bit 16 x) = (t + t div 65536) mod 4294967296"
      by (simp only: unat_word_ariths that) simp
    moreover have "t + t div 65536 < 4294967296" using hl by (simp add: t_def)
    ultimately show ?thesis by simp
  qed
  from this [OF s] have "unat (drop_bit 16 c + (c AND 0xffff) + drop_bit 16 (drop_bit 16 c + (c AND 0xffff)))
      = t + t div 65536" .
  then have "unat (ucast (drop_bit 16 c + (c AND 0xffff) + drop_bit 16 (drop_bit 16 c + (c AND 0xffff))) :: u16)
      = (t + t div 65536) mod 65536"
    by (simp add: unsigned_ucast_eq take_bit_eq_mod)
  also have "\<dots> = (if t < 65536 then t else t - 65535)"
  proof (cases "t < 65536")
    case False
    then have "t div 65536 = 1" and lt: "t - 65535 < 65536" using hl by (auto simp: t_def)
    moreover have "Suc t = t - 65535 + 65536" using False by simp
    then have "Suc t mod 65536 = t - 65535" using lt by (metis mod_add_self2 mod_less)
    ultimately show ?thesis using False by simp
  qed simp
  also have "\<dots> = ones_norm t" using ones_norm_small [of t] hl by (simp add: t_def)
  also have "\<dots> = ones_norm (unat c)"
  proof -
    have "unat c = t + 65535 * h" by (simp add: c t_def)
    moreover have "t = 0 \<longleftrightarrow> t + 65535 * h = 0" by (auto simp: t_def)
    moreover have "(t + 65535 * h - 1) mod 65535 = (t - 1) mod 65535" if "t \<noteq> 0"
    proof -
      have "t + 65535 * h - 1 = t - 1 + 65535 * h" using that by simp
      then show ?thesis by simp
    qed
    ultimately show ?thesis by (auto simp: ones_norm_def)
  qed
  finally show ?thesis .
qed

section \<open>Properties\<close>

text \<open>
  C16. \<open>CalculateChecksum\<close> is the Internet checksum of RFC 1071: the complement of the one's
  complement sum (addition with end-around carry) of the big-endian 16-bit words, an odd last
  byte padded with zero; the 32-bit accumulator is wide enough for buffers of up to 131072 bytes.
\<close>

theorem checksum_is_ones_complement:
  assumes "length buffer \<le> 131072"
  shows "CalculateChecksum buffer = NOT (ones_sum (words16 buffer))"
proof -
  let ?c = "cksum_loop buffer 0"
  have "(length buffer + 1) div 2 \<le> 65536" using assms by simp
  then have "sum_list (map unat (words16 buffer)) < 4294967296"
    using words16_bound [of buffer] by linarith
  then have "unat ?c = sum_list (map unat (words16 buffer))" using unat_cksum_loop [of 0 buffer] by simp
  then have "unat (ucast (drop_bit 16 ?c + (?c AND 0xffff) + drop_bit 16 (drop_bit 16 ?c + (?c AND 0xffff))) :: u16)
      = unat (ones_sum (words16 buffer))"
    by (simp only: unat_fold unat_ones_sum)
  then have "ucast (drop_bit 16 ?c + (?c AND 0xffff) + drop_bit 16 (drop_bit 16 ?c + (?c AND 0xffff)))
      = ones_sum (words16 buffer)"
    by (simp only: word_unat_eq_iff)
  then show ?thesis by (simp add: CalculateChecksum_def Let_def)
qed

theorem checksum_is_ones_complement_witness:
  "CalculateChecksum [0xff, 0xff, 0x80, 0x01, 0x7f] = NOT (ones_sum [0xffff, 0x8001, 0x7f00])"
  using checksum_is_ones_complement [of "[0xff, 0xff, 0x80, 0x01, 0x7f]"]
  by (simp add: Uint16_def)

end
