(* ===== verification/Go_Text.thy ===== *)
theory Go_Text
  imports Checksum_Code
begin

text \<open>
  Text as the code makes it: \<open>%d\<close> of \<open>fmt.Sprintf\<close>, \<open>net.IP.String\<close>, and the keys
  \<open>address:port\<close> and \<open>port:port\<close> under which services and protocol connections file their
  connections. The lemmas show that different ports give different keys.
\<close>

section \<open>Addresses as text\<close>

fun dec :: "nat \<Rightarrow> string" where
  "dec n = (if n < 10 then [char_of (48 + n)] else dec (n div 10) @ [char_of (48 + n mod 10)])"

declare dec.simps [simp del]

fun hex :: "nat \<Rightarrow> string" where
  "hex n = (if n < 16 then [char_of (if n < 10 then 48 + n else 87 + n)]
            else hex (n div 16) @ [char_of (if n mod 16 < 10 then 48 + n mod 16 else 87 + n mod 16)])"

declare hex.simps [simp del]

fun groups16 :: "bytes \<Rightarrow> nat list" where
  "groups16 (a # b # rest) = (unat a * 256 + unat b) # groups16 rest"
| "groups16 _ = []"

fun zero_run :: "nat list \<Rightarrow> nat" where
  "zero_run (0 # gs) = Suc (zero_run gs)"
| "zero_run _ = 0"

fun longest_run :: "nat \<Rightarrow> nat list \<Rightarrow> nat \<times> nat" where
  \<comment> \<open>start and length of the first longest run of zero groups\<close>
  "longest_run i [] = (i, 0)"
| "longest_run i (g # gs) =
     (let here = zero_run (g # gs); (j, n) = longest_run (i + 1) gs
      in if n > here then (j, n) else (i, here))"

fun join_colon :: "string list \<Rightarrow> string" where
  "join_colon [] = []"
| "join_colon [s] = s"
| "join_colon (s # ss) = s @ '':'' @ join_colon ss"

definition ip6_string :: "bytes \<Rightarrow> string" where
  "ip6_string ip =
     (let gs = groups16 ip; (i, n) = longest_run 0 gs
      in if n < 2 then join_colon (map hex gs)
         else join_colon (map hex (take i gs)) @ ''::'' @ join_colon (map hex (drop (i + n) gs)))"

definition ip_string :: "bytes \<Rightarrow> string" where
  \<comment> \<open>\<open>net.IP.String\<close>\<close>
  "ip_string ip =
     (if ip = [] then ''<nil>''
      else case To4 ip of
        Some b \<Rightarrow> dec (unat (b ! 0)) @ ''.'' @ dec (unat (b ! 1)) @ ''.'' @ dec (unat (b ! 2)) @ ''.'' @ dec (unat (b ! 3))
      | None \<Rightarrow> if length ip = 16 then ip6_string ip
          else ''?'' @ concat (map (\<lambda>b. hex (unat b div 16) @ hex (unat b mod 16)) ip))"

definition to4_string :: "bytes \<Rightarrow> string" where
  \<comment> \<open>\<open>ip.To4().String()\<close>\<close>
  "to4_string ip = (case To4 ip of Some b \<Rightarrow> ip_string b | None \<Rightarrow> ''<nil>'')"

section \<open>The code: numbers\<close>

definition dec_int :: "int \<Rightarrow> string" where
  \<comment> \<open>\<open>%d\<close>\<close>
  "dec_int n = (if n < 0 then CHR ''-'' # dec (nat (- n)) else dec (nat n))"

section \<open>Text of different numbers is different\<close>

lemma To4_length: "To4 ip = Some b \<Longrightarrow> length b = 4 \<and> ip \<noteq> []"
  by (auto simp: To4_def split: if_splits)

lemma ip_string_to4: "To4 ip = Some b \<Longrightarrow> ip_string ip = to4_string ip"
proof -
  assume a: "To4 ip = Some b"
  have "length b = 4" "ip \<noteq> []" using To4_length [OF a] by blast+
  then have "b \<noteq> []" "To4 b = Some b" by (auto simp: To4_def)
  then show ?thesis using a \<open>ip \<noteq> []\<close> by (simp add: to4_string_def ip_string_def)
qed

lemma dec_not_Nil [simp]: "dec n \<noteq> []" "[] \<noteq> dec n"
  using dec.simps [of n] by auto

lemma char_of_digit: "d < 10 \<Longrightarrow> of_char (char_of (48 + d :: nat)) = 48 + d"
  by simp

lemma dec_digits: "c \<in> set (dec n) \<Longrightarrow> of_char c \<in> {48..57::nat}"
proof (induction n rule: dec.induct)
  case (1 n)
  then show ?case by (subst (asm) dec.simps) (auto split: if_splits)
qed

lemma of_char_punctuation: "of_char (CHR '':'') = (58::nat)" "of_char (CHR ''-'') = (45::nat)"
  by code_simp+

lemma colon_not_in_dec: "CHR '':'' \<notin> set (dec n)"
  using dec_digits [of "CHR '':''" n] by (auto simp: of_char_punctuation)

lemma dec_inj: "dec m = dec n \<Longrightarrow> m = n"
proof (induction m arbitrary: n rule: dec.induct)
  case (1 m)
  have eq: "char_of (48 + a :: nat) = (char_of (48 + b) :: char) \<Longrightarrow> a < 10 \<Longrightarrow> b < 10 \<Longrightarrow> a = b" for a b
    by (metis add_left_cancel char_of_digit)
  consider "m < 10" "n < 10" | "m < 10" "10 \<le> n" | "10 \<le> m" "n < 10" | "10 \<le> m" "10 \<le> n" by linarith
  then show ?case
  proof cases
    case 1
    then show ?thesis using "1.prems" eq by (simp add: dec.simps [of m] dec.simps [of n])
  next
    case 4
    then have "dec (m div 10) = dec (n div 10)" "char_of (48 + m mod 10) = (char_of (48 + n mod 10) :: char)"
      using "1.prems" by (simp_all add: dec.simps [of m] dec.simps [of n])
    moreover have "m div 10 = n div 10" by (rule "1.IH") (use 4 calculation in simp_all)
    ultimately have "m div 10 * 10 + m mod 10 = n div 10 * 10 + n mod 10"
      using eq [of "m mod 10" "n mod 10"] by simp
    then show ?thesis by (simp only: div_mult_mod_eq)
  qed (use "1.prems" in \<open>simp_all add: dec.simps [of m] dec.simps [of n]\<close>)
qed

lemma colon_not_in_dec_int: "CHR '':'' \<notin> set (dec_int n)"
  by (simp add: dec_int_def colon_not_in_dec)

lemma dec_int_inj:
  assumes "dec_int m = dec_int n"
  shows "m = n"
proof -
  have minus: "CHR ''-'' # b \<noteq> dec k" for b k
  proof
    assume "CHR ''-'' # b = dec k"
    then have "CHR ''-'' \<in> set (dec k)" by (metis list.set_intros(1))
    from dec_digits [OF this] show False by (simp add: of_char_punctuation)
  qed
  show ?thesis
  proof (cases "m < 0"; cases "n < 0")
    assume "m < 0" "n < 0"
    then have "nat (- m) = nat (- n)" using assms by (intro dec_inj) (simp add: dec_int_def)
    then show ?thesis using \<open>m < 0\<close> \<open>n < 0\<close> by simp
  next
    assume "\<not> m < 0" "\<not> n < 0"
    then have "nat m = nat n" using assms by (intro dec_inj) (simp add: dec_int_def)
    then show ?thesis using \<open>\<not> m < 0\<close> \<open>\<not> n < 0\<close> by simp
  qed (use assms minus in \<open>auto simp: dec_int_def dest: sym\<close>)
qed

lemma key_split:
  assumes "a @ CHR '':'' # b = a' @ CHR '':'' # b'" "CHR '':'' \<notin> set a" "CHR '':'' \<notin> set a'"
  shows "a = a' \<and> b = b'"
proof -
  have t: "takeWhile (\<lambda>c. c \<noteq> CHR '':'') (x @ CHR '':'' # y) = x" if "CHR '':'' \<notin> set x" for x y :: string
    using that by (induction x) auto
  then have "a = a'" using assms by metis
  then show ?thesis using assms(1) by simp
qed

end
