(* ===== verification/Seq_Arith.thy ===== *)
theory Seq_Arith
  imports Prelude
begin

text \<open>
  \<open>lib/utils.go\<close>: arithmetic and comparison of 32-bit sequence numbers. \<open>isGreater\<close> is
  computed as the code does, on 64-bit signed values (they cannot overflow here, so they
  are integers); the lemmas say what it decides in terms of the wrapped distance
  \<open>seq1 - seq2\<close>.
\<close>

definition SeqIncrement :: "u32 \<Rightarrow> u32" where
  "SeqIncrement seq = word_of_int (uint seq + 1)"

definition SeqIncrementBy :: "u32 \<Rightarrow> u32 \<Rightarrow> u32" where
  "SeqIncrementBy seq inc = word_of_int (uint seq + uint inc)"

definition isGreater :: "u32 \<Rightarrow> u32 \<Rightarrow> bool" where
  "isGreater seq1 seq2 =
     (if seq1 = seq2 then False
      else let diff0 = uint seq1 - uint seq2;
               diff = (if diff0 < 0 then - diff0 else diff0);
               wrapdiff = 4294967295 + 1 - diff;
               distance = (if diff < wrapdiff then diff else wrapdiff)
           in (distance + uint seq2) mod (4294967295 + 1) = uint seq1)"

definition isGreaterOrEqual :: "u32 \<Rightarrow> u32 \<Rightarrow> bool" where
  "isGreaterOrEqual seq1 seq2 \<longleftrightarrow> isGreater seq1 seq2 \<or> seq1 = seq2"

definition isLess :: "u32 \<Rightarrow> u32 \<Rightarrow> bool" where
  "isLess seq1 seq2 \<longleftrightarrow> \<not> isGreaterOrEqual seq1 seq2"

definition isLessOrEqual :: "u32 \<Rightarrow> u32 \<Rightarrow> bool" where
  "isLessOrEqual seq1 seq2 \<longleftrightarrow> \<not> isGreater seq1 seq2"

section \<open>Increments are word addition\<close>

lemma SeqIncrement_eq [simp]: "SeqIncrement s = s + 1"
  by (simp add: SeqIncrement_def)

lemma SeqIncrementBy_eq [simp]: "SeqIncrementBy s n = s + n"
  by (simp add: SeqIncrementBy_def)

section \<open>The comparison in terms of the wrapped distance\<close>

definition seq_dist :: "u32 \<Rightarrow> u32 \<Rightarrow> nat" where
  "seq_dist a b = unat (a - b)"

lemma uint_diff_wrap:
  "uint (a - b :: u32) = (if uint b \<le> uint a then uint a - uint b else uint a - uint b + 4294967296)"
  by (simp add: uint_sub_if')

lemma int_mod_once:
  fixes z :: int
  shows "0 \<le> z \<Longrightarrow> z < 8589934592 \<Longrightarrow>
    z mod 4294967296 = (if z < 4294967296 then z else z - 4294967296)"
  using minus_mod_self2 [of z 4294967296] mod_pos_pos_trivial [of z 4294967296]
    mod_pos_pos_trivial [of "z - 4294967296" 4294967296] by (simp del: minus_mod_self2)

lemma isGreater_int:
  fixes x y d :: int
  assumes "0 \<le> x" "x < 4294967296" "0 \<le> y" "y < 4294967296" "x \<noteq> y"
    and d: "d = (if x - y < 0 then - (x - y) else x - y)"
  shows "((if d < 4294967296 - d then d else 4294967296 - d) + y) mod 4294967296 = x
     \<longleftrightarrow> (if y \<le> x then x - y else x - y + 4294967296) \<le> 2147483648"
proof -
  have "0 < d" "d < 4294967296" using assms by (auto split: if_splits)
  then show ?thesis
    using assms int_mod_once [of "(if d < 4294967296 - d then d else 4294967296 - d) + y"]
    by (auto split: if_splits)
qed

lemma isGreater_uint: "isGreater a b \<longleftrightarrow> a \<noteq> b \<and> uint (a - b) \<le> 2147483648"
proof (cases "a = b")
  case False
  then have "uint a \<noteq> uint b" using word_uint_eqI by blast
  then show ?thesis
    using isGreater_int [of "uint a" "uint b", OF _ _ _ _ _ refl]
      uint_ge_0 [of a] uint_ge_0 [of b] uint_lt2p [of a] uint_lt2p [of b] False
    by (simp add: isGreater_def uint_diff_wrap Let_def)
qed (simp add: isGreater_def)

lemma isGreater_dist: "isGreater a b \<longleftrightarrow> 0 < seq_dist a b \<and> seq_dist a b \<le> 2147483648"
proof -
  have "uint (a - b) = int (seq_dist a b)" by (simp add: seq_dist_def)
  moreover have "a \<noteq> b \<longleftrightarrow> 0 < seq_dist a b"
    by (metis bot_nat_0.not_eq_extremum eq_iff_diff_eq_0 seq_dist_def unat_eq_zero)
  ultimately show ?thesis by (simp add: isGreater_uint)
qed

lemma seq_dist_self [simp]: "seq_dist a a = 0"
  by (simp add: seq_dist_def)

lemma seq_dist_less [simp]: "seq_dist a b < 4294967296"
  using unsigned_less [of "a - b"] by (simp add: seq_dist_def)

lemma seq_dist_0 [simp]: "seq_dist a b = 0 \<longleftrightarrow> a = b"
  by (simp add: seq_dist_def unat_eq_zero)

lemma seq_dist_pos: "0 < seq_dist a b \<longleftrightarrow> a \<noteq> b"
  by (simp flip: seq_dist_0)

lemma seq_dist_offset [simp]: "x < 4294967296 \<Longrightarrow> seq_dist (base + word_of_nat x) base = x"
  by (simp add: seq_dist_def unat_of_nat)

lemma seq_dist_swap: "a \<noteq> b \<Longrightarrow> seq_dist b a = 4294967296 - seq_dist a b"
proof -
  assume "a \<noteq> b"
  then have "uint a \<noteq> uint b" using word_uint_eqI by blast
  then have "uint (b - a) = 4294967296 - uint (a - b)" by (simp add: uint_diff_wrap)
  then have "int (seq_dist b a) = 4294967296 - int (seq_dist a b)" by (simp add: seq_dist_def)
  then show ?thesis by linarith
qed

lemma isLess_dist: "isLess a b \<longleftrightarrow> 2147483648 < seq_dist a b"
  by (auto simp: isLess_def isGreaterOrEqual_def isGreater_dist seq_dist_pos)

lemma isGreaterOrEqual_dist: "isGreaterOrEqual a b \<longleftrightarrow> seq_dist a b \<le> 2147483648"
  by (auto simp: isGreaterOrEqual_def isGreater_dist seq_dist_pos)

lemma isLessOrEqual_dist: "isLessOrEqual a b \<longleftrightarrow> a = b \<or> 2147483648 < seq_dist a b"
  by (auto simp: isLessOrEqual_def isGreater_dist seq_dist_pos)

lemmas seq_order_dist = isGreater_dist isLess_dist isGreaterOrEqual_dist isLessOrEqual_dist

section \<open>Within a window\<close>

text \<open>
  Two numbers that lie less than half the sequence space after a common base are ordered as
  their offsets are.
\<close>

lemma seq_dist_window:
  assumes "x < 2147483648" "y < 2147483648"
  shows "seq_dist (base + word_of_nat x) (base + word_of_nat y) =
    (if y \<le> x then x - y else 4294967296 - (y - x))"
proof -
  have *: "y' \<le> x' \<Longrightarrow> x' < 2147483648 \<Longrightarrow>
      seq_dist (base + word_of_nat x') (base + word_of_nat y') = x' - y'" for x' y' :: nat
  proof -
    assume "y' \<le> x'" "x' < 2147483648"
    then have "base + word_of_nat x' - (base + word_of_nat y') = (word_of_nat (x' - y') :: u32)"
      by (simp add: of_nat_diff)
    then show ?thesis using \<open>x' < 2147483648\<close> by (simp add: seq_dist_def unat_of_nat)
  qed
  show ?thesis
  proof (cases "y \<le> x")
    case True
    then show ?thesis using * assms by simp
  next
    case False
    then have d: "seq_dist (base + word_of_nat y) (base + word_of_nat x) = y - x" using * assms by simp
    with False have "base + word_of_nat y \<noteq> base + (word_of_nat x :: u32)"
      by (metis diff_is_0_eq nle_le seq_dist_0)
    then have "seq_dist (base + word_of_nat x) (base + word_of_nat y) = 4294967296 - (y - x)"
      using seq_dist_swap d by metis
    then show ?thesis using False by simp
  qed
qed

lemma isGreater_offsets:
  assumes "x < 2147483648" "y < 2147483648"
  shows "isGreater (base + word_of_nat x) (base + word_of_nat y) \<longleftrightarrow> y < x"
  using assms by (simp add: isGreater_dist seq_dist_window) arith

lemma isLess_offsets:
  assumes "x < 2147483648" "y < 2147483648"
  shows "isLess (base + word_of_nat x) (base + word_of_nat y) \<longleftrightarrow> x < y"
  using assms by (simp add: isLess_dist seq_dist_window) arith

text \<open>The same for the numbers themselves, by their distance from the base.\<close>

lemma seq_dist_rep: "base + word_of_nat (seq_dist x base) = x"
  by (simp add: seq_dist_def)

lemma seq_dist_inj: "seq_dist x base = seq_dist y base \<longleftrightarrow> x = y"
  by (metis seq_dist_rep)

lemma window_order:
  assumes "seq_dist x base < 2147483648" "seq_dist y base < 2147483648"
  shows "isGreater x y \<longleftrightarrow> seq_dist y base < seq_dist x base"
    and "isLess x y \<longleftrightarrow> seq_dist x base < seq_dist y base"
    and "isGreaterOrEqual x y \<longleftrightarrow> seq_dist y base \<le> seq_dist x base"
    and "isLessOrEqual x y \<longleftrightarrow> seq_dist x base \<le> seq_dist y base"
proof -
  show g: "isGreater x y \<longleftrightarrow> seq_dist y base < seq_dist x base"
    using isGreater_offsets [OF assms, of base] by (simp add: seq_dist_rep)
  show l: "isLess x y \<longleftrightarrow> seq_dist x base < seq_dist y base"
    using isLess_offsets [OF assms, of base] by (simp add: seq_dist_rep)
  show "isGreaterOrEqual x y \<longleftrightarrow> seq_dist y base \<le> seq_dist x base"
    using l by (auto simp: isLess_def)
  show "isLessOrEqual x y \<longleftrightarrow> seq_dist x base \<le> seq_dist y base"
    using g by (auto simp: isLessOrEqual_def)
qed

section \<open>Properties\<close>

text \<open>
  C32. In a window of half the sequence space after any base, across the wrap-around too, the
  four comparison functions decide the order of the offsets.
\<close>

theorem seq_compare_window:
  assumes "x < 2 ^ 31" "y < 2 ^ 31"
  shows "isGreater (SeqIncrementBy base (word_of_nat x)) (SeqIncrementBy base (word_of_nat y)) = (y < x)
    \<and> isGreaterOrEqual (SeqIncrementBy base (word_of_nat x)) (SeqIncrementBy base (word_of_nat y)) = (y \<le> x)
    \<and> isLess (SeqIncrementBy base (word_of_nat x)) (SeqIncrementBy base (word_of_nat y)) = (x < y)
    \<and> isLessOrEqual (SeqIncrementBy base (word_of_nat x)) (SeqIncrementBy base (word_of_nat y)) = (x \<le> y)"
proof -
  have xy: "x < 2147483648" "y < 2147483648" using assms by simp_all
  have g: "isGreater (base + word_of_nat x) (base + word_of_nat y) = (y < x)"
    using isGreater_offsets [OF xy] .
  have l: "isLess (base + word_of_nat x) (base + word_of_nat y) = (x < y)"
    using isLess_offsets [OF xy] .
  show ?thesis using g l by (auto simp: isLess_def isLessOrEqual_def)
qed

theorem seq_compare_window_witness:
  "(10::nat) < 2 ^ 31 \<and> (3::nat) < 2 ^ 31 \<and>
   isGreater (SeqIncrementBy (- 5) (word_of_nat 10)) (SeqIncrementBy (- 5) (word_of_nat 3))"
  using seq_compare_window [of 10 3 "- 5"] by simp

text \<open>
  The comparison is not antisymmetric: two numbers at distance exactly half the sequence
  space, and no others, are each greater than the other.
\<close>

theorem isGreater_both_iff: "isGreater a b \<and> isGreater b a \<longleftrightarrow> a - b = 2147483648"
proof (cases "a = b")
  case False
  have "seq_dist a b = 2147483648 \<longleftrightarrow> a - b = 2147483648"
    unfolding seq_dist_def by (auto simp: word_unat_eq_iff)
  then show ?thesis using False seq_dist_swap [OF False] by (auto simp: isGreater_dist)
qed (simp add: isGreater_def)

end
