(* ===== verification/Port_Pool.thy ===== *)
theory Port_Pool
  imports Prelude "HOL-Library.Multiset"
begin

text \<open>
  \<open>lib/portpool.go\<close>: the ring of local port numbers a protocol connection dials from. The
  state is the struct; \<open>rand.Perm\<close> is the parameter \<open>perm\<close> and the clock the parameter
  \<open>now\<close>. The ring refines a first-in first-out queue (locale \<open>fifo_pool\<close>) as long as a port
  is returned only while it is allocated.
\<close>

section \<open>The code\<close>

record port_pool =
  ports :: "int list"
  capacity :: nat
  minPort :: int
  maxPort :: int
  readIdx :: nat
  writeIdx :: nat
  isFull :: bool
  isEmpty :: bool
  allocatedMap :: "int \<rightharpoonup> int"

datatype pool_error = PoolEmpty | PortOutOfRange | PoolFull

definition newPortPool :: "int \<Rightarrow> int \<Rightarrow> nat list \<Rightarrow> port_pool" where
  "newPortPool lo hi perm =
     \<lparr> ports = map (\<lambda>v. lo + int v) perm, capacity = nat (hi - lo + 1),
       minPort = lo, maxPort = hi, readIdx = 0, writeIdx = 0,
       isFull = False, isEmpty = False, allocatedMap = Map.empty \<rparr>"

definition allocatePort :: "int \<Rightarrow> port_pool \<Rightarrow> (pool_error + int) \<times> port_pool" where
  "allocatePort now p =
     (if isEmpty p then (Inl PoolEmpty, p)
      else
        let port = ports p ! readIdx p;
            r = (readIdx p + 1) mod capacity p
        in (Inr port,
            p\<lparr> readIdx := r,
               isEmpty := (if r = writeIdx p then True else isEmpty p),
               isFull := False,
               allocatedMap := (allocatedMap p)(port \<mapsto> now) \<rparr>))"

definition returnPort :: "int \<Rightarrow> port_pool \<Rightarrow> pool_error option \<times> port_pool" where
  "returnPort port p =
     (if port < minPort p \<or> port > maxPort p then (Some PortOutOfRange, p)
      else if isFull p then (Some PoolFull, p)
      else
        let w = (writeIdx p + 1) mod capacity p
        in (None,
            p\<lparr> ports := (ports p)[writeIdx p := port],
               writeIdx := w,
               isFull := (if w = readIdx p then True else isFull p),
               isEmpty := False,
               allocatedMap := (allocatedMap p)(port := None) \<rparr>))"

section \<open>The interface: a bounded first-in first-out pool\<close>

locale fifo_pool =
  fixes alloc :: "'t \<Rightarrow> 's \<Rightarrow> ('e + 'a) \<times> 's"
    and give :: "'a \<Rightarrow> 's \<Rightarrow> 'e option \<times> 's"
    and contents :: "'s \<Rightarrow> 'a list"
    and room :: "'s \<Rightarrow> nat"
    and legal :: "'s \<Rightarrow> 'a set"
    and inv :: "'s \<Rightarrow> bool"
  assumes alloc_empty: "inv s \<Longrightarrow> contents s = [] \<Longrightarrow> \<exists>e. alloc t s = (Inl e, s)"
    and alloc_head: "inv s \<Longrightarrow> contents s = x # xs \<Longrightarrow> \<exists>s'. alloc t s = (Inr x, s')
          \<and> inv s' \<and> contents s' = xs \<and> room s' = room s \<and> legal s' = legal s"
    and give_tail: "inv s \<Longrightarrow> length (contents s) < room s \<Longrightarrow> x \<in> legal s \<Longrightarrow>
          \<exists>s'. give x s = (None, s')
          \<and> inv s' \<and> contents s' = contents s @ [x] \<and> room s' = room s \<and> legal s' = legal s"
begin

text \<open>
  The accounting of a client that holds the multiset \<open>H\<close>: what is in the pool and what the
  client holds make up the fixed stock \<open>U\<close>, and the stock fits.
\<close>

definition accounted :: "'a multiset \<Rightarrow> 's \<Rightarrow> 'a multiset \<Rightarrow> bool" where
  "accounted U s H \<longleftrightarrow> inv s \<and> mset (contents s) + H = U \<and> size U \<le> room s \<and> set_mset U \<subseteq> legal s"

lemma alloc_accounted:
  assumes "accounted U s H" "alloc t s = (Inr x, s')"
  shows "accounted U s' (add_mset x H)"
proof (cases "contents s")
  case Nil
  then obtain e where "alloc t s = (Inl e, s)" using assms alloc_empty [of s t] by (auto simp: accounted_def)
  then show ?thesis using assms by simp
next
  case (Cons y ys)
  then have "y = x \<and> inv s' \<and> contents s' = ys \<and> room s' = room s \<and> legal s' = legal s"
    using assms alloc_head [of s y ys t] by (auto simp: accounted_def)
  then show ?thesis using assms Cons by (simp add: accounted_def)
qed

lemma alloc_error_accounted:
  assumes "accounted U s H" "alloc t s = (Inl e, s')"
  shows "s' = s \<and> H = U"
proof (cases "contents s")
  case Nil
  then obtain e' where "alloc t s = (Inl e', s)" using assms alloc_empty [of s t] by (auto simp: accounted_def)
  then show ?thesis using assms Nil by (simp add: accounted_def)
next
  case (Cons y ys)
  then show ?thesis using assms alloc_head [of s y ys t] by (auto simp: accounted_def)
qed

lemma give_accounted:
  assumes "accounted U s H" "x \<in># H"
  shows "\<exists>s'. give x s = (None, s') \<and> accounted U s' (H - {#x#})"
proof -
  have "size U = length (contents s) + size H" "0 < size H"
    using assms by (auto simp: accounted_def nonempty_has_size [symmetric])
  then have "length (contents s) < room s" using assms by (simp add: accounted_def)
  moreover have "x \<in> legal s" using assms by (auto simp: accounted_def)
  ultimately show ?thesis
    using assms give_tail [of s x] by (auto simp: accounted_def multi_member_split)
qed

lemma alloc_distinct:
  assumes "accounted U s H" "alloc t s = (Inr x, s')" "\<forall>y. count U y \<le> 1"
  shows "x \<notin># H \<and> x \<in> legal s"
proof -
  have a: "accounted U s' (add_mset x H)" using assms alloc_accounted by blast
  then have "x \<in># U" by (auto simp: accounted_def)
  moreover have "count U x = count (mset (contents s')) x + Suc (count H x)"
    using a by (auto simp: accounted_def)
  then have "count H x = 0" using assms(3) [rule_format, of x] by linarith
  ultimately show ?thesis using assms(1) by (auto simp: accounted_def not_in_iff)
qed

end

section \<open>The ring refines the interface\<close>

definition ring_used :: "port_pool \<Rightarrow> nat" where
  "ring_used p =
     (if isEmpty p then 0
      else if readIdx p < writeIdx p then writeIdx p - readIdx p
      else capacity p - readIdx p + writeIdx p)"

definition available :: "port_pool \<Rightarrow> int list" where
  "available p = map (\<lambda>i. ports p ! ((readIdx p + i) mod capacity p)) [0..<ring_used p]"

definition ring_inv :: "port_pool \<Rightarrow> bool" where
  "ring_inv p \<longleftrightarrow> 0 < capacity p \<and> length (ports p) = capacity p
     \<and> readIdx p < capacity p \<and> writeIdx p < capacity p
     \<and> (isEmpty p \<longrightarrow> readIdx p = writeIdx p)
     \<and> (isFull p \<longrightarrow> readIdx p = writeIdx p \<and> \<not> isEmpty p)"

lemma length_available [simp]: "length (available p) = ring_used p"
  by (simp add: available_def)

lemma ring_used_le: "ring_inv p \<Longrightarrow> ring_used p \<le> capacity p"
  by (auto simp: ring_used_def ring_inv_def)

lemma available_Nil: "ring_inv p \<Longrightarrow> available p = [] \<longleftrightarrow> isEmpty p"
  by (auto simp: available_def ring_used_def ring_inv_def)

lemma available_Cons:
  assumes "ring_inv p" "available p = x # xs"
  shows "ports p ! readIdx p = x \<and> xs = map (\<lambda>i. ports p ! ((readIdx p + Suc i) mod capacity p)) [0..<ring_used p - 1]"
proof -
  have "0 < ring_used p" using assms(2) length_available [of p] by (metis length_Cons zero_less_Suc)
  then obtain n where n: "ring_used p = Suc n" by (cases "ring_used p") auto
  have "available p = ports p ! (readIdx p mod capacity p)
      # map (\<lambda>i. ports p ! ((readIdx p + Suc i) mod capacity p)) [0..<n]"
    by (simp add: available_def n upt_conv_Cons map_Suc_upt [symmetric] del: upt_Suc)
  then show ?thesis using assms n by (simp add: ring_inv_def)
qed

lemma ring_succ: "i < n \<Longrightarrow> Suc i mod n = (if Suc i = n then 0 else Suc i)" for i n :: nat
  by auto

lemma allocate_refines:
  assumes "ring_inv p" "available p = x # xs"
  shows "\<exists>p'. allocatePort now p = (Inr x, p') \<and> ring_inv p' \<and> available p' = xs
    \<and> capacity p' = capacity p \<and> minPort p' = minPort p \<and> maxPort p' = maxPort p"
proof -
  define p' where "p' = snd (allocatePort now p)"
  have ne: "\<not> isEmpty p" using assms available_Nil by fastforce
  have inv: "0 < capacity p" "length (ports p) = capacity p" "readIdx p < capacity p" "writeIdx p < capacity p"
    using assms by (auto simp: ring_inv_def)
  have al: "allocatePort now p = (Inr x, p')"
    using ne available_Cons [OF assms] by (simp add: allocatePort_def p'_def Let_def)
  have rd: "readIdx p' = (readIdx p + 1) mod capacity p"
    and em: "isEmpty p' = (readIdx p' = writeIdx p)"
    and same: "ports p' = ports p" "capacity p' = capacity p" "writeIdx p' = writeIdx p"
      "minPort p' = minPort p" "maxPort p' = maxPort p" "\<not> isFull p'"
    using ne by (auto simp: allocatePort_def p'_def Let_def)
  have u: "ring_used p' = ring_used p - 1"
    using inv ne by (auto simp: ring_used_def rd em same ring_succ)
  have "ring_inv p'" using inv ne by (auto simp: ring_inv_def rd em same)
  moreover have "(readIdx p' + i) mod capacity p = (readIdx p + Suc i) mod capacity p" for i
    by (simp add: rd mod_add_left_eq)
  then have "available p' = xs"
    using available_Cons [OF assms] inv by (simp add: available_def u same)
  ultimately show ?thesis using al same by auto
qed

lemma return_refines:
  assumes "ring_inv p" "ring_used p < capacity p" "minPort p \<le> x" "x \<le> maxPort p"
  shows "\<exists>p'. returnPort x p = (None, p') \<and> ring_inv p' \<and> available p' = available p @ [x]
    \<and> capacity p' = capacity p \<and> minPort p' = minPort p \<and> maxPort p' = maxPort p"
proof -
  define p' where "p' = snd (returnPort x p)"
  have inv: "0 < capacity p" "length (ports p) = capacity p" "readIdx p < capacity p" "writeIdx p < capacity p"
    using assms by (auto simp: ring_inv_def)
  have nf: "\<not> isFull p" using assms by (auto simp: ring_inv_def ring_used_def split: if_splits)
  have eq: "readIdx p = writeIdx p \<Longrightarrow> isEmpty p" using assms(2) inv by (auto simp: ring_used_def split: if_splits)
  have emp: "isEmpty p \<Longrightarrow> readIdx p = writeIdx p" using assms by (auto simp: ring_inv_def)
  have rt: "returnPort x p = (None, p')" using assms nf by (simp add: returnPort_def p'_def Let_def)
  have wr: "writeIdx p' = (writeIdx p + 1) mod capacity p"
    and fl: "isFull p' = (writeIdx p' = readIdx p)"
    and po: "ports p' = (ports p)[writeIdx p := x]"
    and same: "capacity p' = capacity p" "readIdx p' = readIdx p" "\<not> isEmpty p'"
      "minPort p' = minPort p" "maxPort p' = maxPort p"
    using assms nf by (auto simp: returnPort_def p'_def Let_def)
  have u: "ring_used p' = Suc (ring_used p)"
    using inv eq emp by (auto simp: ring_used_def wr same ring_succ)
  have w: "(readIdx p + ring_used p) mod capacity p = writeIdx p"
    using inv eq emp by (auto simp: ring_used_def mod_if)
  have pos: "i < ring_used p \<Longrightarrow> (readIdx p + i) mod capacity p \<noteq> writeIdx p" for i
  proof
    assume i: "i < ring_used p" "(readIdx p + i) mod capacity p = writeIdx p"
    then have "(readIdx p + i) mod capacity p = (readIdx p + ring_used p) mod capacity p" using w by simp
    then have "capacity p dvd (ring_used p - i)"
      using i(1) by (metis add_diff_cancel_left add_le_cancel_left less_or_eq_imp_le mod_eq_dvd_iff_nat)
    then show False using i(1) assms(2) by (auto dest: dvd_imp_le)
  qed
  have "ring_inv p'" using inv nf assms by (auto simp: ring_inv_def wr fl po same)
  moreover have "available p' = available p @ [x]"
    using inv w pos by (fastforce simp: available_def u same po nth_list_update)
  ultimately show ?thesis using rt same by auto
qed

text \<open>The model's ring is an instance of the interface.\<close>

interpretation ring: fifo_pool allocatePort returnPort available capacity "\<lambda>p. {minPort p..maxPort p}" ring_inv
proof
  fix s and t :: int assume "ring_inv s" "available s = []"
  then show "\<exists>e. allocatePort t s = (Inl e, s)" using available_Nil by (auto simp: allocatePort_def)
next
  fix s x xs and t :: int assume "ring_inv s" "available s = x # xs"
  then show "\<exists>s'. allocatePort t s = (Inr x, s') \<and> ring_inv s' \<and> available s' = xs \<and>
      capacity s' = capacity s \<and> {minPort s'..maxPort s'} = {minPort s..maxPort s}"
    using allocate_refines [of s x xs t] by auto
next
  fix s x assume "ring_inv s" "length (available s) < capacity s" "x \<in> {minPort s..maxPort s}"
  then show "\<exists>s'. returnPort x s = (None, s') \<and> ring_inv s' \<and> available s' = available s @ [x] \<and>
      capacity s' = capacity s \<and> {minPort s'..maxPort s'} = {minPort s..maxPort s}"
    using return_refines [of s x] by auto
qed

section \<open>The pool under its client\<close>

text \<open>
  A run of the pool as the protocol connection uses it: it starts as \<open>newPortPool\<close> makes it,
  from a permutation of the offsets, and a port is returned only while it is held.
\<close>

definition is_perm :: "int \<Rightarrow> int \<Rightarrow> nat list \<Rightarrow> bool" where
  "is_perm lo hi perm \<longleftrightarrow> lo \<le> hi \<and> distinct perm \<and> set perm = {0..<nat (hi - lo + 1)}"

inductive pool_run :: "int \<Rightarrow> int \<Rightarrow> port_pool \<Rightarrow> int multiset \<Rightarrow> bool" for lo hi where
  fresh: "is_perm lo hi perm \<Longrightarrow> pool_run lo hi (newPortPool lo hi perm) {#}"
| alloc: "pool_run lo hi p H \<Longrightarrow> allocatePort now p = (Inr x, p') \<Longrightarrow> pool_run lo hi p' (add_mset x H)"
| give: "pool_run lo hi p H \<Longrightarrow> x \<in># H \<Longrightarrow> returnPort x p = (r, p') \<Longrightarrow> pool_run lo hi p' (H - {#x#})"

lemma fresh_accounted:
  assumes "is_perm lo hi perm"
  shows "ring.accounted (mset_set {lo..hi}) (newPortPool lo hi perm) {#}"
proof -
  have len: "length perm = nat (hi - lo + 1)"
    using assms distinct_card [of perm] by (auto simp: is_perm_def)
  have av: "available (newPortPool lo hi perm) = map (\<lambda>v. lo + int v) perm"
    using len by (auto simp: available_def ring_used_def newPortPool_def intro!: nth_equalityI)
  have "set (map (\<lambda>v. lo + int v) perm) = {lo..hi}"
  proof -
    have "x \<in> (\<lambda>v. lo + int v) ` {0..<nat (hi - lo + 1)}" if "x \<in> {lo..hi}" for x
      using that by (intro image_eqI [of _ _ "nat (x - lo)"]) auto
    then show ?thesis using assms by (auto simp: is_perm_def)
  qed
  moreover have "distinct (map (\<lambda>v. lo + int v) perm)" using assms by (auto simp: is_perm_def distinct_map inj_on_def)
  ultimately have "mset (available (newPortPool lo hi perm)) = mset_set {lo..hi}"
    unfolding av using mset_set_set by metis
  then show ?thesis
    using assms len by (auto simp: ring.accounted_def ring_inv_def newPortPool_def is_perm_def)
qed

lemma run_accounted: "pool_run lo hi p H \<Longrightarrow> ring.accounted (mset_set {lo..hi}) p H"
proof (induction rule: pool_run.induct)
  case (fresh perm)
  then show ?case by (rule fresh_accounted)
next
  case (alloc p H now x p')
  then show ?case using ring.alloc_accounted by blast
next
  case (give p H x r p')
  then show ?case using ring.give_accounted by fastforce
qed

section \<open>The abstract queue\<close>

datatype pool_op = Allocate int | Give int

fun pool_exec :: "pool_op list \<Rightarrow> port_pool \<Rightarrow> (pool_error + int) list \<times> port_pool" where
  \<comment> \<open>a sequence of calls, with their answers\<close>
  "pool_exec [] p = ([], p)"
| "pool_exec (Allocate now # rest) p =
     (let (r, p1) = allocatePort now p; (rs, p2) = pool_exec rest p1 in (r # rs, p2))"
| "pool_exec (Give x # rest) p =
     (let (e, p1) = returnPort x p; (rs, p2) = pool_exec rest p1
      in ((case e of None \<Rightarrow> Inr x | Some e \<Rightarrow> Inl e) # rs, p2))"

fun queue_exec :: "int \<Rightarrow> int \<Rightarrow> pool_op list \<Rightarrow> int list \<Rightarrow> (pool_error + int) list \<times> int list" where
  \<comment> \<open>the same calls on a first-in first-out queue bounded by the number of ports\<close>
  "queue_exec lo hi [] q = ([], q)"
| "queue_exec lo hi (Allocate now # rest) q =
     (case q of
        [] \<Rightarrow> (let (rs, q2) = queue_exec lo hi rest [] in (Inl PoolEmpty # rs, q2))
      | x # q1 \<Rightarrow> (let (rs, q2) = queue_exec lo hi rest q1 in (Inr x # rs, q2)))"
| "queue_exec lo hi (Give x # rest) q =
     (let (r, q1) = (if x < lo \<or> x > hi then (Inl PortOutOfRange, q)
                     else if length q = nat (hi - lo + 1) then (Inl PoolFull, q) else (Inr x, q @ [x]));
          (rs, q2) = queue_exec lo hi rest q1
      in (r # rs, q2))"

definition ring_exact :: "int \<Rightarrow> int \<Rightarrow> port_pool \<Rightarrow> bool" where
  "ring_exact lo hi p \<longleftrightarrow> ring_inv p \<and> minPort p = lo \<and> maxPort p = hi \<and> capacity p = nat (hi - lo + 1)
     \<and> (isFull p \<longleftrightarrow> ring_used p = capacity p)"

lemma full_iff: "ring_inv p \<Longrightarrow> \<not> isEmpty p \<Longrightarrow> readIdx p = writeIdx p \<longleftrightarrow> ring_used p = capacity p"
  by (auto simp: ring_inv_def ring_used_def)

lemma exact_allocate:
  assumes "ring_inv p" "minPort p = lo" "maxPort p = hi" "capacity p = nat (hi - lo + 1)" "available p = x # xs"
  shows "\<exists>p'. allocatePort now p = (Inr x, p') \<and> ring_exact lo hi p' \<and> available p' = xs"
proof -
  obtain p' where a: "allocatePort now p = (Inr x, p')" "ring_inv p'" "available p' = xs" "capacity p' = capacity p"
    "minPort p' = minPort p" "maxPort p' = maxPort p"
    using allocate_refines [OF assms(1,5)] by blast
  have "\<not> isFull p'" using a(1) by (auto simp: allocatePort_def Let_def split: if_splits)
  moreover have "ring_used p' < capacity p'"
    using ring_used_le [OF assms(1)] length_available [of p] length_available [of p'] assms(5) a(3,4) by simp
  ultimately show ?thesis using a assms by (auto simp: ring_exact_def)
qed

lemma exact_return:
  assumes "ring_exact lo hi p" "lo \<le> x" "x \<le> hi" "\<not> isFull p"
  shows "\<exists>p'. returnPort x p = (None, p') \<and> ring_exact lo hi p' \<and> available p' = available p @ [x]"
proof -
  have "ring_used p < capacity p"
    using assms(1,4) ring_used_le [of p] by (auto simp: ring_exact_def)
  then obtain p' where r: "returnPort x p = (None, p')" "ring_inv p'" "available p' = available p @ [x]" "capacity p' = capacity p"
    "minPort p' = minPort p" "maxPort p' = maxPort p"
    using return_refines [of p x] assms by (auto simp: ring_exact_def)
  have "isFull p' \<longleftrightarrow> writeIdx p' = readIdx p'" "\<not> isEmpty p'"
    using r(1) assms(4) by (auto simp: returnPort_def Let_def split: if_splits)
  then show ?thesis using r full_iff [OF r(2)] assms(1) by (auto simp: ring_exact_def)
qed

lemma exec_refines:
  "ring_exact lo hi p \<Longrightarrow> fst (pool_exec ops p) = fst (queue_exec lo hi ops (available p))
     \<and> available (snd (pool_exec ops p)) = snd (queue_exec lo hi ops (available p))"
proof (induction ops p rule: pool_exec.induct)
  case (2 now rest p)
  have i: "ring_inv p" "minPort p = lo" "maxPort p = hi" "capacity p = nat (hi - lo + 1)"
    using "2.prems" by (simp_all add: ring_exact_def)
  show ?case
  proof (cases "available p")
    case Nil
    then have a: "allocatePort now p = (Inl PoolEmpty, p)" using available_Nil [OF i(1)] by (simp add: allocatePort_def)
    then show ?thesis using "2.IH" [OF a [symmetric] refl] "2.prems" Nil by (simp add: case_prod_beta)
  next
    case (Cons x xs)
    obtain p' where a: "allocatePort now p = (Inr x, p')" "ring_exact lo hi p'" "available p' = xs"
      using exact_allocate [OF i Cons] by blast
    then show ?thesis using "2.IH" [OF a(1) [symmetric] refl a(2)] Cons by (simp add: case_prod_beta)
  qed
next
  case (3 x rest p)
  have i: "minPort p = lo" "maxPort p = hi" "capacity p = nat (hi - lo + 1)" "isFull p \<longleftrightarrow> ring_used p = capacity p"
    using "3.prems" by (simp_all add: ring_exact_def)
  consider "x < lo \<or> x > hi" | "lo \<le> x" "x \<le> hi" "isFull p" | "lo \<le> x" "x \<le> hi" "\<not> isFull p" by linarith
  then show ?case
  proof cases
    case 1
    then have r: "returnPort x p = (Some PortOutOfRange, p)" using i by (simp add: returnPort_def)
    then show ?thesis using "3.IH" [OF r [symmetric] refl] "3.prems" 1 by (simp add: case_prod_beta)
  next
    case 2
    then have r: "returnPort x p = (Some PoolFull, p)" using i by (simp add: returnPort_def)
    then show ?thesis using "3.IH" [OF r [symmetric] refl] "3.prems" 2 i by (simp add: case_prod_beta)
  next
    case 3
    obtain p' where r: "returnPort x p = (None, p')" "ring_exact lo hi p'" "available p' = available p @ [x]"
      using exact_return [OF "3.prems" 3] by blast
    then show ?thesis using "3.IH" [OF r(1) [symmetric] refl r(2)] 3 i by (simp add: case_prod_beta)
  qed
qed simp

text \<open>
  No two live connections share a local port: a port \<open>allocatePort\<close> hands out is in the
  configured range and is held by nobody.
\<close>

theorem allocated_port_fresh:
  assumes "pool_run lo hi p H" "allocatePort now p = (Inr x, p')"
  shows "x \<notin># H \<and> lo \<le> x \<and> x \<le> hi"
proof -
  have a: "ring.accounted (mset_set {lo..hi}) p H" using run_accounted assms by blast
  have "\<forall>y. count (mset_set {lo..hi}) y \<le> 1" by (auto simp: count_mset_set')
  then have "x \<notin># H" using ring.alloc_distinct a assms(2) by blast
  moreover have "mset_set {lo..hi} = mset (available p') + add_mset x H"
    using ring.alloc_accounted [OF a assms(2)] by (simp add: ring.accounted_def)
  then have "x \<in># mset_set {lo..hi}" by simp
  ultimately show ?thesis by simp
qed

definition sample_pool :: port_pool where
  "sample_pool = newPortPool 1 2 [1, 0]"

lemma sample_run: "pool_run 1 2 (snd (allocatePort 0 sample_pool)) {#2#}"
proof -
  have "{0..<2} = {0, Suc 0}" by auto
  then have "is_perm 1 2 [1, 0]" by (auto simp: is_perm_def)
  then have "pool_run 1 2 sample_pool {#}" unfolding sample_pool_def by (rule pool_run.fresh)
  moreover have "allocatePort 0 sample_pool = (Inr 2, snd (allocatePort 0 sample_pool))"
    by (simp add: sample_pool_def newPortPool_def allocatePort_def)
  ultimately show ?thesis using pool_run.alloc by fastforce
qed

theorem allocated_port_fresh_witness:
  "1 \<notin># {#2::int#} \<and> fst (allocatePort 7 (snd (allocatePort 0 sample_pool))) = Inr 1"
proof -
  have al: "allocatePort 7 (snd (allocatePort 0 sample_pool)) =
      (Inr 1, snd (allocatePort 7 (snd (allocatePort 0 sample_pool))))"
    by (simp add: sample_pool_def newPortPool_def allocatePort_def)
  then show ?thesis using allocated_port_fresh [OF sample_run al] by (metis fst_conv)
qed

text \<open>
  Returning a port that is held never fails, and allocation fails only when every port of
  the range is held.
\<close>

theorem pool_never_leaks:
  assumes "pool_run lo hi p H"
  shows "(x \<in># H \<longrightarrow> fst (returnPort x p) = None)
    \<and> (fst (allocatePort now p) = Inl e \<longrightarrow> H = mset_set {lo..hi})"
proof -
  have a: "ring.accounted (mset_set {lo..hi}) p H" using run_accounted assms by blast
  have "x \<in># H \<Longrightarrow> fst (returnPort x p) = None" using ring.give_accounted [OF a] by fastforce
  moreover have "fst (allocatePort now p) = Inl e \<Longrightarrow> H = mset_set {lo..hi}"
    using ring.alloc_error_accounted [OF a, of now e "snd (allocatePort now p)"] by (metis prod.collapse)
  ultimately show ?thesis by blast
qed


theorem pool_never_leaks_witness:
  "fst (returnPort 2 (snd (allocatePort 0 sample_pool))) = None"
  using pool_never_leaks [OF sample_run, of 2] by simp

text \<open>
  A fresh pool is not marked full, so it accepts a port that was never handed out; the
  write index then passes the read index and every other port is lost.
\<close>

theorem fresh_pool_accepts_return:
  assumes "length perm = nat (hi - lo + 1)" "lo < hi" "lo \<le> x" "x \<le> hi"
  shows "length (available (newPortPool lo hi perm)) = nat (hi - lo + 1)
    \<and> fst (returnPort x (newPortPool lo hi perm)) = None
    \<and> available (snd (returnPort x (newPortPool lo hi perm))) = [x]"
proof -
  have "1 < nat (hi - lo + 1)" using assms by simp
  then show ?thesis
    using assms by (auto simp: newPortPool_def returnPort_def available_def ring_used_def Let_def)
qed

theorem fresh_pool_accepts_return_witness:
  "available (snd (returnPort 5 (newPortPool 4 6 [0, 1, 2]))) = [5]"
  using fresh_pool_accepts_return [of "[0, 1, 2]" 6 4 5] by simp

text \<open>
  C14. From its first allocation on, the ring of ports is a first-in first-out queue bounded by the
  number of ports: any sequence of calls, in any order and with any arguments, gets from the ring
  the answers, errors included, that the queue gives, and leaves the same ports in the same order.
\<close>

theorem pool_refines_queue:
  assumes "is_perm lo hi perm" "q = map (\<lambda>v. lo + int v) perm"
  shows "fst (pool_exec (Allocate now # ops) (newPortPool lo hi perm)) = fst (queue_exec lo hi (Allocate now # ops) q)
    \<and> available (snd (pool_exec (Allocate now # ops) (newPortPool lo hi perm))) = snd (queue_exec lo hi (Allocate now # ops) q)"
proof -
  let ?p = "newPortPool lo hi perm"
  have len: "length perm = nat (hi - lo + 1)"
    using assms(1) distinct_card [of perm] by (auto simp: is_perm_def)
  have av: "available ?p = q"
    using len assms(2) by (auto simp: available_def ring_used_def newPortPool_def intro!: nth_equalityI)
  have i: "ring_inv ?p" "minPort ?p = lo" "maxPort ?p = hi" "capacity ?p = nat (hi - lo + 1)"
    using fresh_accounted [OF assms(1)] by (simp_all add: ring.accounted_def newPortPool_def)
  have "length q = nat (hi - lo + 1)" "lo \<le> hi" using len assms by (simp_all add: is_perm_def)
  then obtain x xs where q: "q = x # xs" by (cases q) auto
  obtain p' where a: "allocatePort now ?p = (Inr x, p')" "ring_exact lo hi p'" "available p' = xs"
    using exact_allocate [OF i] av q by blast
  show ?thesis using exec_refines [OF a(2), of ops] by (simp add: a q case_prod_beta)
qed

theorem pool_refines_queue_witness:
  "fst (pool_exec [Allocate 0, Allocate 1, Allocate 2, Give 9, Give 2, Give 1, Give 1, Allocate 3] (newPortPool 1 2 [1, 0]))
    = [Inr 2, Inr 1, Inl PoolEmpty, Inl PortOutOfRange, Inr 2, Inr 1, Inl PoolFull, Inr 2]"
proof -
  have "{0..<2} = {0, Suc 0}" by auto
  then have "is_perm 1 2 [1, 0]" by (auto simp: is_perm_def)
  then show ?thesis
    using pool_refines_queue [of 1 2 "[1, 0]" "[2, 1]" 0 "[Allocate 1, Allocate 2, Give 9, Give 2, Give 1, Give 1, Allocate 3]"]
    by simp
qed

end
