(* ===== verification/Packet_Marshal.thy ===== *)
theory Packet_Marshal
  imports Conn_Types Checksum_Code
begin

text \<open>
  \<open>PcpPacket.Marshal\<close> of \<open>lib/packet.go\<close>: the header, each option in the order the code writes
  it, the NOP padding, the payload and the checksum, all written into the caller's buffer, so
  that bytes no write reaches keep what the buffer held before. \<open>now\<close> is the clock in
  microseconds. The lemmas give the byte layout of the result when the options fit.
\<close>

section \<open>The code\<close>

definition has_ws :: "packet \<Rightarrow> options \<Rightarrow> bool" where
  "has_ws p opts \<longleftrightarrow> \<not> IsOpenConnection p \<and> windowScaleShiftCount opts > 0"

definition has_mss :: "packet \<Rightarrow> options \<Rightarrow> bool" where
  "has_mss p opts \<longleftrightarrow> \<not> IsOpenConnection p \<and> mss opts > 0"

definition has_permit :: "packet \<Rightarrow> options \<Rightarrow> bool" where
  "has_permit p opts \<longleftrightarrow> \<not> IsOpenConnection p \<and> permitSack opts"

definition has_sack :: "packet \<Rightarrow> options \<Rightarrow> bool" where
  "has_sack p opts \<longleftrightarrow>
     IsOpenConnection p \<and> SackEnabled opts \<and> length (blocks (outSACKOption opts)) > 0"

definition options_wanted :: "packet \<Rightarrow> options \<Rightarrow> nat" where
  "options_wanted p opts =
     (if has_ws p opts then 3 else 0) + (if has_mss p opts then 4 else 0)
     + (if has_permit p opts then 2 else 0)
     + (if has_sack p opts then 2 + length (blocks (outSACKOption opts)) * 8 else 0)
     + (if timestampEnabled opts then 10 else 0)"

definition options_length :: "packet \<Rightarrow> options \<Rightarrow> nat" where
  "options_length p opts =
     (if options_wanted p opts > TcpOptionsMaxLength then TcpOptionsMaxLength
      else options_wanted p opts)"

definition options_padding :: "nat \<Rightarrow> nat" where
  "options_padding len = (if len mod 4 \<noteq> 0 then 4 - len mod 4 else 0)"

definition total_header_length :: "packet \<Rightarrow> options \<Rightarrow> nat" where
  "total_header_length p opts =
     TcpHeaderLength + options_length p opts + options_padding (options_length p opts)"

definition write_header :: "packet \<Rightarrow> nat \<Rightarrow> bytes \<Rightarrow> bytes" where
  "write_header p totalHeaderLength frame =
     copy_at 18 (be16 (UrgentPointer p))
     (copy_at 16 (be16 0)
     (copy_at 14 (be16 (WindowSize p))
     (copy_at 13 [Flags p]
     (copy_at 12 [push_bit 4 (word_of_nat (totalHeaderLength div 4))]
     (copy_at 8 (be32 (AcknowledgmentNum p))
     (copy_at 4 (be32 (SequenceNumber p))
     (copy_at 2 (be16 (DestinationPort p))
     (copy_at 0 (be16 (SourcePort p)) frame))))))))"

definition write_ws :: "packet \<Rightarrow> options \<Rightarrow> nat \<times> bytes \<Rightarrow> nat \<times> bytes" where
  "write_ws p opts = (\<lambda>(off, frame).
     if has_ws p opts then (off + 3, copy_at off [3, 3, windowScaleShiftCount opts] frame)
     else (off, frame))"

definition write_mss :: "packet \<Rightarrow> options \<Rightarrow> nat \<times> bytes \<Rightarrow> nat \<times> bytes" where
  "write_mss p opts = (\<lambda>(off, frame).
     if has_mss p opts then (off + 4, copy_at (off + 2) (be16 (mss opts)) (copy_at off [2, 4] frame))
     else (off, frame))"

definition write_permit :: "packet \<Rightarrow> options \<Rightarrow> nat \<times> bytes \<Rightarrow> nat \<times> bytes" where
  "write_permit p opts = (\<lambda>(off, frame).
     if has_permit p opts then (off + 2, copy_at off [4, 2] frame) else (off, frame))"

fun write_blocks :: "sackblock list \<Rightarrow> nat \<times> bytes \<Rightarrow> nat \<times> bytes" where
  "write_blocks [] (off, frame) = (off, frame)"
| "write_blocks (b # bs) (off, frame) =
     (if off + 8 \<ge> TcpHeaderLength + TcpOptionsMaxLength then (off, frame)
      else write_blocks bs (off + 8,
             copy_at (off + 4) (be32 (rightEdge b)) (copy_at off (be32 (leftEdge b)) frame)))"

definition write_sack :: "packet \<Rightarrow> options \<Rightarrow> nat \<times> bytes \<Rightarrow> nat \<times> bytes" where
  "write_sack p opts = (\<lambda>(off, frame).
     if has_sack p opts
     then let bs = blocks (outSACKOption opts)
          in write_blocks bs (off + 2, copy_at off [5, word_of_nat (2 + length bs * 8)] frame)
     else (off, frame))"

definition write_timestamp :: "int \<Rightarrow> options \<Rightarrow> nat \<times> bytes \<Rightarrow> nat \<times> bytes" where
  "write_timestamp now opts = (\<lambda>(off, frame).
     if timestampEnabled opts \<and> off + 10 < TcpHeaderLength + TcpOptionsMaxLength
     then (off + 10, copy_at (off + 6) (be32 (tsEchoReplyValue opts))
                     (copy_at (off + 2) (be32 (word_of_int now))
                     (copy_at off [8, 10] frame)))
     else (off, frame))"

definition write_padding :: "nat \<Rightarrow> nat \<times> bytes \<Rightarrow> bytes" where
  "write_padding padding = (\<lambda>(off, frame). copy_at off (replicate padding 1) frame)"

datatype marshal_error = BufferTooSmall nat nat

definition Marshal :: "int \<Rightarrow> packet \<Rightarrow> u8 \<Rightarrow> bytes \<Rightarrow> (marshal_error + nat \<times> bytes) go" where
  "Marshal now p protocolId buffer =
     (case TcpOptions p of None \<Rightarrow> Panic
      | Some opts \<Rightarrow>
        let totalHeaderLength = total_header_length p opts;
            pcpFrameLength = totalHeaderLength + length (Payload p)
        in if pcpFrameLength + TcpPseudoHeaderLength > length buffer
           then Return (Inl (BufferTooSmall (length buffer) pcpFrameLength))
           else
             let frame = drop TcpPseudoHeaderLength buffer;
                 frame1 = write_header p totalHeaderLength frame;
                 frame2 = write_padding (options_padding (options_length p opts))
                   (write_timestamp now opts (write_sack p opts (write_permit p opts
                   (write_mss p opts (write_ws p opts (TcpHeaderLength, frame1))))))
             in go_bind (assemblePseudoHeader (take TcpPseudoHeaderLength buffer) (SrcAddr p)
                  (DestAddr p) protocolId (word_of_nat pcpFrameLength))
                (\<lambda>r. case r of Inl e \<Rightarrow> Fatal
                  | Inr ph \<Rightarrow>
                    let frame3 = (if length (Payload p) > 0
                                  then copy_at totalHeaderLength (Payload p) frame2 else frame2);
                        checksum = CalculateChecksum (ph @ take pcpFrameLength frame3)
                    in Return (Inr (pcpFrameLength, ph @ copy_at 16 (be16 checksum) frame3))))"

section \<open>The layout of the bytes\<close>

definition enc_header :: "packet \<Rightarrow> nat \<Rightarrow> u16 \<Rightarrow> bytes" where
  "enc_header p thl ck = be16 (SourcePort p) @ be16 (DestinationPort p) @ be32 (SequenceNumber p)
     @ be32 (AcknowledgmentNum p) @ [push_bit 4 (word_of_nat (thl div 4)), Flags p]
     @ be16 (WindowSize p) @ be16 ck @ be16 (UrgentPointer p)"

definition enc_blocks :: "sackblock list \<Rightarrow> bytes" where
  "enc_blocks bs = concat (map (\<lambda>b. be32 (leftEdge b) @ be32 (rightEdge b)) bs)"

definition enc_ws :: "packet \<Rightarrow> options \<Rightarrow> bytes" where
  "enc_ws p opts = (if has_ws p opts then [3, 3, windowScaleShiftCount opts] else [])"

definition enc_mss :: "packet \<Rightarrow> options \<Rightarrow> bytes" where
  "enc_mss p opts = (if has_mss p opts then [2, 4] @ be16 (mss opts) else [])"

definition enc_permit :: "packet \<Rightarrow> options \<Rightarrow> bytes" where
  "enc_permit p opts = (if has_permit p opts then [4, 2] else [])"

definition enc_sack :: "packet \<Rightarrow> options \<Rightarrow> bytes" where
  "enc_sack p opts = (if has_sack p opts
     then [5, word_of_nat (2 + length (blocks (outSACKOption opts)) * 8)]
       @ enc_blocks (blocks (outSACKOption opts)) else [])"

definition enc_timestamp :: "int \<Rightarrow> options \<Rightarrow> bytes" where
  "enc_timestamp now opts = (if timestampEnabled opts
     then [8, 10] @ be32 (word_of_int now) @ be32 (tsEchoReplyValue opts) else [])"

definition enc_options :: "int \<Rightarrow> packet \<Rightarrow> options \<Rightarrow> bytes" where
  "enc_options now p opts = enc_ws p opts @ enc_mss p opts @ enc_permit p opts @ enc_sack p opts
     @ enc_timestamp now opts @ replicate (options_padding (options_length p opts)) 1"

lemma length_enc_header [simp]: "length (enc_header p thl ck) = 20"
  by (simp add: enc_header_def)

lemma length_enc_blocks [simp]: "length (enc_blocks bs) = 8 * length bs"
  by (induction bs) (simp_all add: enc_blocks_def)

lemma write_header_layout:
  "write_header p thl frame = enc_header p thl 0 @ drop 20 frame"
  by (simp add: write_header_def enc_header_def bytes_simps)

lemma copy_checksum: "copy_at 16 (be16 ck) (enc_header p thl c0 @ rest) = enc_header p thl ck @ rest"
  by (simp add: enc_header_def bytes_simps)

lemma write_ws_layout:
  "write_ws p opts (length pre, pre @ suf)
    = (length (pre @ enc_ws p opts), (pre @ enc_ws p opts) @ drop (length (enc_ws p opts)) suf)"
  by (simp add: write_ws_def enc_ws_def bytes_simps)

lemma write_mss_layout:
  "write_mss p opts (length pre, pre @ suf)
    = (length (pre @ enc_mss p opts), (pre @ enc_mss p opts) @ drop (length (enc_mss p opts)) suf)"
  by (simp add: write_mss_def enc_mss_def bytes_simps)

lemma write_permit_layout:
  "write_permit p opts (length pre, pre @ suf)
    = (length (pre @ enc_permit p opts), (pre @ enc_permit p opts) @ drop (length (enc_permit p opts)) suf)"
  by (simp add: write_permit_def enc_permit_def bytes_simps)

lemma write_blocks_layout:
  "length pre + 8 * length bs < 60 \<Longrightarrow>
   write_blocks bs (length pre, pre @ suf)
    = (length (pre @ enc_blocks bs), (pre @ enc_blocks bs) @ drop (length (enc_blocks bs)) suf)"
proof (induction bs arbitrary: pre suf)
  case Nil
  then show ?case by (simp add: enc_blocks_def)
next
  case (Cons b bs)
  have w: "copy_at (length pre + 4) (be32 (rightEdge b)) (copy_at (length pre) (be32 (leftEdge b)) (pre @ suf))
      = (pre @ be32 (leftEdge b) @ be32 (rightEdge b)) @ drop 8 suf"
    by (simp add: bytes_simps)
  show ?case
    using Cons.prems Cons.IH [of "pre @ be32 (leftEdge b) @ be32 (rightEdge b)" "drop 8 suf"] w
    by (simp add: enc_blocks_def add.commute)
qed

lemma write_sack_layout:
  assumes "has_sack p opts \<Longrightarrow> length pre + 2 + 8 * length (blocks (outSACKOption opts)) < 60"
  shows "write_sack p opts (length pre, pre @ suf)
    = (length (pre @ enc_sack p opts), (pre @ enc_sack p opts) @ drop (length (enc_sack p opts)) suf)"
proof (cases "has_sack p opts")
  case True
  let ?bs = "blocks (outSACKOption opts)"
  let ?h = "[5, word_of_nat (2 + length ?bs * 8)] :: bytes"
  have "copy_at (length pre) ?h (pre @ suf) = (pre @ ?h) @ drop 2 suf" by (simp add: bytes_simps numeral_2_eq_2)
  moreover have "write_blocks ?bs (length (pre @ ?h), (pre @ ?h) @ drop 2 suf)
      = (length ((pre @ ?h) @ enc_blocks ?bs), ((pre @ ?h) @ enc_blocks ?bs) @ drop (length (enc_blocks ?bs)) (drop 2 suf))"
    by (rule write_blocks_layout) (use assms True in simp)
  ultimately show ?thesis using True by (simp add: write_sack_def enc_sack_def add.commute Let_def)
qed (simp add: write_sack_def enc_sack_def)

lemma write_timestamp_layout:
  assumes "timestampEnabled opts \<Longrightarrow> length pre + 10 < 60"
  shows "write_timestamp now opts (length pre, pre @ suf)
    = (length (pre @ enc_timestamp now opts),
       (pre @ enc_timestamp now opts) @ drop (length (enc_timestamp now opts)) suf)"
  using assms by (simp add: write_timestamp_def enc_timestamp_def bytes_simps)


section \<open>The whole frame\<close>

lemma length_enc_options:
  "options_wanted p opts \<le> 40 \<Longrightarrow>
   length (enc_options now p opts) = options_length p opts + options_padding (options_length p opts)"
  by (simp add: enc_options_def options_length_def options_wanted_def enc_ws_def enc_mss_def
      enc_permit_def enc_sack_def enc_timestamp_def)

lemma write_options_layout:
  assumes "options_wanted p opts \<le> 40" "length pre = 20"
  shows "write_padding (options_padding (options_length p opts))
      (write_timestamp now opts (write_sack p opts (write_permit p opts
      (write_mss p opts (write_ws p opts (20, pre @ suf))))))
    = pre @ enc_options now p opts @ drop (length (enc_options now p opts)) suf"
proof -
  note w = assms(1) [unfolded options_wanted_def]
  have n4: "length (blocks (outSACKOption opts)) \<le> 4" if "has_sack p opts"
    using w that by (simp split: if_splits)
  have n3: "length (blocks (outSACKOption opts)) \<le> 3" if "has_sack p opts" "timestampEnabled opts"
    using w that by (simp split: if_splits)
  have a: "write_permit p opts (write_mss p opts (write_ws p opts (20, pre @ suf)))
     = (length (pre @ enc_ws p opts @ enc_mss p opts @ enc_permit p opts),
        (pre @ enc_ws p opts @ enc_mss p opts @ enc_permit p opts)
          @ drop (length (enc_ws p opts @ enc_mss p opts @ enc_permit p opts)) suf)"
    unfolding assms(2) [symmetric] write_ws_layout write_mss_layout write_permit_layout
    by (simp add: add.commute add.left_commute)
  have b: "write_sack p opts (length pre', pre' @ suf')
     = (length (pre' @ enc_sack p opts), (pre' @ enc_sack p opts) @ drop (length (enc_sack p opts)) suf')"
    if "length pre' = length (pre @ enc_ws p opts @ enc_mss p opts @ enc_permit p opts)" for pre' suf'
    using n4 that assms(2)
    by (intro write_sack_layout) (simp add: enc_ws_def enc_mss_def enc_permit_def has_ws_def has_mss_def
         has_permit_def has_sack_def)
  have c: "write_timestamp now opts (length pre', pre' @ suf')
     = (length (pre' @ enc_timestamp now opts),
        (pre' @ enc_timestamp now opts) @ drop (length (enc_timestamp now opts)) suf')"
    if "length pre' = length (pre @ enc_ws p opts @ enc_mss p opts @ enc_permit p opts @ enc_sack p opts)"
    for pre' suf'
  proof (rule write_timestamp_layout)
    assume ts: "timestampEnabled opts"
    show "length pre' + 10 < 60"
    proof (cases "has_sack p opts")
      case True
      then have "\<not> has_ws p opts" "\<not> has_mss p opts" "\<not> has_permit p opts"
        by (simp_all add: has_ws_def has_mss_def has_permit_def has_sack_def)
      then show ?thesis using n3 [OF True ts] that assms(2)
        by (simp add: enc_ws_def enc_mss_def enc_permit_def enc_sack_def)
    qed (use that assms(2) in \<open>simp add: enc_ws_def enc_mss_def enc_permit_def enc_sack_def\<close>)
  qed
  show ?thesis
    unfolding a
    by (subst b, simp, subst c, simp)
      (simp add: write_padding_def bytes_simps enc_options_def add.commute add.left_commute)
qed

definition frame_of :: "int \<Rightarrow> packet \<Rightarrow> options \<Rightarrow> u16 \<Rightarrow> bytes" where
  "frame_of now p opts ck =
     enc_header p (total_header_length p opts) ck @ enc_options now p opts @ Payload p"

lemma length_frame_of:
  "options_wanted p opts \<le> 40 \<Longrightarrow>
   length (frame_of now p opts ck) = total_header_length p opts + length (Payload p)"
  by (simp add: frame_of_def length_enc_options total_header_length_def)

lemma marshal_layout:
  assumes "TcpOptions p = Some opts" "options_wanted p opts \<le> 40"
    and "assemblePseudoHeader (take 12 buffer) (SrcAddr p) (DestAddr p) proto
           (word_of_nat (total_header_length p opts + length (Payload p))) = Return (Inr ph)"
    and "total_header_length p opts + length (Payload p) + 12 \<le> length buffer"
  shows "Marshal now p proto buffer =
    Return (Inr (total_header_length p opts + length (Payload p),
      ph @ frame_of now p opts (CalculateChecksum (ph @ frame_of now p opts 0))
         @ drop (12 + (total_header_length p opts + length (Payload p))) buffer))"
proof -
  let ?t = "total_header_length p opts"
  let ?e = "enc_header p ?t 0"
  let ?o = "enc_options now p opts"
  have lo: "20 + length ?o = ?t" using assms(2) by (simp add: length_enc_options total_header_length_def)
  define suf where "suf = drop 20 (drop 12 buffer)"
  have f2: "write_padding (options_padding (options_length p opts))
      (write_timestamp now opts (write_sack p opts (write_permit p opts
      (write_mss p opts (write_ws p opts (TcpHeaderLength, write_header p ?t (drop 12 buffer)))))))
    = ?e @ ?o @ drop (length ?o) suf"
    using write_options_layout [OF assms(2), of ?e now suf] by (simp add: write_header_layout suf_def)
  have f3: "(if length (Payload p) > 0 then copy_at ?t (Payload p) (?e @ ?o @ drop (length ?o) suf)
      else ?e @ ?o @ drop (length ?o) suf)
    = frame_of now p opts 0 @ drop (12 + (?t + length (Payload p))) buffer"
    by (auto simp: frame_of_def suf_def bytes_simps add.commute add.left_commute simp flip: lo)
  have tk: "take (?t + length (Payload p)) (frame_of now p opts 0 @ r) = frame_of now p opts 0" for r
    using assms(2) by (simp add: length_frame_of)
  have ck: "copy_at 16 (be16 c) (frame_of now p opts 0 @ r) = frame_of now p opts c @ r" for c r
    by (simp add: frame_of_def copy_checksum)
  have nb: "(length buffer < ?t + length (Payload p) + 12) = False" using assms(4) by simp
  show ?thesis
    by (simp only: Marshal_def assms(1,3) option.case Let_def TcpPseudoHeaderLength_def nb if_False f2
        go_bind.simps sum.case f3 tk ck)
qed

lemma assemblePseudoHeader_ok:
  assumes "To4 s = Some s4" "To4 d = Some d4" "length b = 12"
  shows "assemblePseudoHeader b (IPAddr s) (IPAddr d) proto len =
    Return (Inr (be32 (Uint32 s4) @ be32 (Uint32 d4) @ [0, proto] @ be16 len))"
proof -
  obtain a0 a1 a2 a3 a4 a5 a6 a7 a8 a9 a10 a11 where
    b: "b = [a0, a1, a2, a3, a4, a5, a6, a7, a8, a9, a10, a11]"
    using assms(3) by (auto simp: length_Suc_conv eval_nat_numeral)
  show ?thesis using assms by (simp add: assemblePseudoHeader_def b bytes_simps)
qed


section \<open>The checksum of a marshalled packet\<close>

text \<open>Every write after the header leaves the header alone, whether the options fit or not.\<close>

definition header_kept :: "bytes \<Rightarrow> nat \<Rightarrow> nat \<times> bytes \<Rightarrow> bool" where
  "header_kept h n s \<longleftrightarrow> 20 \<le> fst s \<and> take 20 (snd s) = h \<and> n \<le> length (snd s) \<and> 20 \<le> length (snd s)"

lemma header_kept_copy:
  "header_kept h n (off, f) \<Longrightarrow> off \<le> off' \<Longrightarrow> off \<le> i \<Longrightarrow> header_kept h n (off', copy_at i src f)"
  using length_copy_at_ge [of f i src] by (auto simp: header_kept_def take_copy_at_before)

lemma header_kept_steps:
  "header_kept h n s \<Longrightarrow> header_kept h n (write_ws p opts s)"
  "header_kept h n s \<Longrightarrow> header_kept h n (write_mss p opts s)"
  "header_kept h n s \<Longrightarrow> header_kept h n (write_permit p opts s)"
  "header_kept h n s \<Longrightarrow> header_kept h n (write_timestamp now opts s)"
  by (cases s; auto simp: write_ws_def write_mss_def write_permit_def write_timestamp_def
      intro!: header_kept_copy; fail)+

lemma header_kept_blocks: "header_kept h n s \<Longrightarrow> header_kept h n (write_blocks bs s)"
proof (induction bs s rule: write_blocks.induct)
  case (2 b bs off frame)
  have "header_kept h n (off + 8,
      copy_at (off + 4) (be32 (rightEdge b)) (copy_at off (be32 (leftEdge b)) frame))"
    by (rule header_kept_copy [OF header_kept_copy [OF 2(2), of off off]]) simp_all
  then show ?case using 2 by simp
qed simp

lemma header_kept_sack: "header_kept h n s \<Longrightarrow> header_kept h n (write_sack p opts s)"
  by (cases s) (simp add: write_sack_def Let_def header_kept_blocks header_kept_copy)

lemma verify_of_calculated:
  assumes "length f = n" "20 \<le> n" "take 20 f = enc_header p thl 0"
    and "length pre = 12"
    and "\<And>b. length b = 12 \<Longrightarrow> assemblePseudoHeader b src dst proto (word_of_nat n) = Return (Inr ph)"
    and "length ph = 12"
  shows "VerifyChecksum (pre @ copy_at 16 (be16 (CalculateChecksum (ph @ f))) f) src dst proto
    = Return (True, ph @ copy_at 16 (be16 (CalculateChecksum (ph @ f))) f)"
proof -
  define c where "c = CalculateChecksum (ph @ f)"
  obtain g where f: "f = enc_header p thl 0 @ g" using assms(3) append_take_drop_id by metis
  have l: "length g = n - 20" using assms(1) f by simp
  have s: "copy_at 16 (be16 c') (enc_header p thl c'' @ g) = enc_header p thl c' @ g" for c' c''
    by (rule copy_checksum)
  have sl: "slice (enc_header p thl c @ g) 16 18 = be16 c"
    by (simp add: enc_header_def bytes_simps)
  have "VerifyChecksum (pre @ enc_header p thl c @ g) src dst proto
      = Return (c = CalculateChecksum (ph @ enc_header p thl 0 @ g), ph @ enc_header p thl c @ g)"
    using assms(2,4,6) l by (simp add: VerifyChecksum_def Let_def sl bytes_simps s assms(5))
  then show ?thesis by (simp add: f s c_def)
qed

lemma options_written_keep_header:
  assumes "length f = n" "20 \<le> n"
  shows "header_kept (take 20 f) n (0 + 20, write_padding k (write_timestamp now opts
    (write_sack p opts (write_permit p opts (write_mss p opts (write_ws p opts (20, f)))))))"
proof -
  let ?s = "write_timestamp now opts (write_sack p opts (write_permit p opts
      (write_mss p opts (write_ws p opts (20, f)))))"
  have "header_kept (take 20 f) n (20, f)" using assms by (simp add: header_kept_def)
  then have "header_kept (take 20 f) n ?s" by (intro header_kept_steps header_kept_sack)
  then have "header_kept (take 20 f) n (fst ?s, copy_at (fst ?s) (replicate k 1) (snd ?s))"
    by (intro header_kept_copy [of _ _ "fst ?s"]) simp_all
  then show ?thesis by (simp add: header_kept_def write_padding_def case_prod_beta)
qed

lemma take_copy_at_frame:
  "i + length src \<le> n \<Longrightarrow> n \<le> length f \<Longrightarrow> take n (copy_at i src f) = copy_at i src (take n f)"
  by (cases "n = i") (auto simp: copy_at_def take_drop min_def)

lemma marshal_verifies:
  assumes "Marshal now p proto buffer = Return (Inr (n, out))"
    and "SrcAddr p = IPAddr s" "DestAddr p = IPAddr d" "length pre = 12"
  shows "\<exists>ph. length ph = 12 \<and> length (take n (drop 12 out)) = n \<and> VerifyChecksum (pre @ take n (drop 12 out)) (IPAddr s) (IPAddr d) proto
    = Return (True, ph @ take n (drop 12 out))"
proof -
  obtain opts where o: "TcpOptions p = Some opts" using assms(1) by (cases "TcpOptions p") (simp_all add: Marshal_def)
  define thl where "thl = total_header_length p opts"
  define m where "m = thl + length (Payload p)"
  have fits: "m + 12 \<le> length buffer"
    using assms(1) by (auto simp: Marshal_def o Let_def m_def thl_def split: if_splits)
  obtain s4 d4 where ip: "To4 s = Some s4" "To4 d = Some d4"
    using assms(1) fits
    by (cases "To4 s"; cases "To4 d")
      (auto simp: Marshal_def o Let_def m_def thl_def assms(2,3) assemblePseudoHeader_def split: if_splits)
  define ph where "ph = be32 (Uint32 s4) @ be32 (Uint32 d4) @ [0, proto] @ be16 (word_of_nat m)"
  have aph: "assemblePseudoHeader b (IPAddr s) (IPAddr d) proto (word_of_nat m) = Return (Inr ph)"
    if "length b = 12" for b using assemblePseudoHeader_ok [OF ip that] by (simp add: ph_def)
  define f1 where "f1 = write_header p thl (drop 12 buffer)"
  define f2 where "f2 = write_padding (options_padding (options_length p opts))
      (write_timestamp now opts (write_sack p opts (write_permit p opts
      (write_mss p opts (write_ws p opts (20, f1))))))"
  define f3 where "f3 = (if length (Payload p) > 0 then copy_at thl (Payload p) f2 else f2)"
  have m20: "20 \<le> thl" "thl \<le> m" by (simp_all add: thl_def total_header_length_def m_def)
  have l1: "length f1 = length buffer - 12" "take 20 f1 = enc_header p thl 0"
    using fits m20 by (simp_all add: f1_def write_header_layout)
  have k2: "header_kept (enc_header p thl 0) (length f1) (20, f2)"
    using options_written_keep_header [of f1 "length f1"] l1 fits m20 by (simp add: f2_def)
  have k3: "header_kept (enc_header p thl 0) (length f1) (20, f3)"
    using k2 m20 by (auto simp: f3_def intro: header_kept_copy)
  have l3: "m \<le> length f3" "take 20 (take m f3) = enc_header p thl 0"
    using k3 fits m20 l1 by (auto simp: header_kept_def min_def)
  have t12: "length (take 12 buffer) = 12" using fits by simp
  have "Marshal now p proto buffer
      = Return (Inr (m, ph @ copy_at 16 (be16 (CalculateChecksum (ph @ take m f3))) f3))"
    using fits aph [OF t12] unfolding m_def thl_def
    by (simp add: Marshal_def o assms(2,3) Let_def f3_def f2_def f1_def thl_def)
  then have out: "n = m" "out = ph @ copy_at 16 (be16 (CalculateChecksum (ph @ take m f3))) f3"
    using assms(1) by auto
  have "length ph = 12" by (simp add: ph_def)
  then have "take n (drop 12 out)
      = copy_at 16 (be16 (CalculateChecksum (ph @ take m f3))) (take m f3)"
    using l3 m20 by (simp add: out take_copy_at_frame)
  then show ?thesis
    using verify_of_calculated [of "take m f3" m p thl pre "IPAddr s" "IPAddr d" proto ph]
      l3 m20 aph assms(4) \<open>length ph = 12\<close> by (intro exI [of _ ph]) (auto simp: out(1) min_def)
qed

section \<open>Properties\<close>

text \<open>
  C15. Whatever options the packet carries, truncated ones included, and whatever the buffer held
  before, a frame that \<open>Marshal\<close> produces passes the receiver's \<open>VerifyChecksum\<close> between the
  same addresses, with any twelve bytes in front of it.
\<close>

theorem marshal_checksum_verifies:
  assumes "Marshal now p proto buffer = Return (Inr (n, out))"
    and "SrcAddr p = IPAddr s" "DestAddr p = IPAddr d" "length pre = 12"
  shows "\<exists>ph. VerifyChecksum (pre @ take n (drop 12 out)) (IPAddr s) (IPAddr d) proto
    = Return (True, ph @ take n (drop 12 out))"
  using marshal_verifies [OF assms] by blast

definition sample_packet :: packet where
  "sample_packet = zero_packet\<lparr> SrcAddr := IPAddr [10, 0, 0, 1], DestAddr := IPAddr [10, 0, 0, 2],
     SourcePort := 40000, DestinationPort := 8901, SequenceNumber := 7, AcknowledgmentNum := 9,
     WindowSize := 65535, Flags := SYNFlag, Payload := [104, 105],
     TcpOptions := Some (zero_options\<lparr> mss := 1400, permitSack := True \<rparr>) \<rparr>"

theorem marshal_checksum_verifies_witness:
  "\<exists>out ph. Marshal 0 sample_packet 6 (replicate 48 0xaa) = Return (Inr (30, out))
    \<and> VerifyChecksum (replicate 12 1 @ take 30 (drop 12 out)) (IPAddr [10, 0, 0, 1]) (IPAddr [10, 0, 0, 2]) 6
      = Return (True, ph @ take 30 (drop 12 out))"
proof -
  obtain out where out: "Marshal 0 sample_packet 6 (replicate 48 0xaa) = Return (Inr (30, out))"
    using marshal_layout [of sample_packet "zero_options\<lparr> mss := 1400, permitSack := True \<rparr>"
        "replicate 48 0xaa" 6 _ 0]
    by (simp add: sample_packet_def zero_packet_def options_wanted_def zero_options_def has_ws_def
        has_mss_def has_permit_def has_sack_def total_header_length_def options_length_def
        options_padding_def assemblePseudoHeader_ok To4_def)
  show ?thesis
    using marshal_checksum_verifies [OF out, of "[10, 0, 0, 1]" "[10, 0, 0, 2]" "replicate 12 1"] out
    by (auto simp: sample_packet_def)
qed

end
