(* ===== verification/Packet_Unmarshal.thy ===== *)
theory Packet_Unmarshal
  imports Packet_Marshal
begin

text \<open>
  \<open>PcpPacket.Unmarshal\<close> of \<open>lib/packet.go\<close> with the chunk handling it uses, and
  \<open>ExtractIpPayload\<close>. The data is given as the bytes of the receive buffer up to the slice's
  capacity and the slice's length, because Go lets a slice expression reach beyond the length.
  The option loop moves by a length byte it reads from the packet: it takes fuel, and \<open>None\<close>
  is the loop that has not ended when the fuel is used up. The lemmas give the parsing of what
  \<open>Marshal\<close> writes and the exact condition under which the loop ends.
\<close>

section \<open>The code\<close>

definition GetChunk :: "packet \<Rightarrow> ring_pool \<Rightarrow> packet \<times> ring_pool" where
  "GetChunk p rp = (let (e, rp') = GetElement rp in (p\<lparr> chunk := e \<rparr>, rp'))"

definition ReturnChunk :: "packet \<Rightarrow> ring_pool \<Rightarrow> packet \<times> ring_pool" where
  "ReturnChunk p rp =
     (case chunk p of None \<Rightarrow> (p, rp) | Some e \<Rightarrow> (p\<lparr> chunk := None \<rparr>, ReturnElement e rp))"

definition CopyToPayload :: "bytes \<Rightarrow> packet \<Rightarrow> ring_pool \<Rightarrow> copy_error option \<times> packet \<times> ring_pool" where
  "CopyToPayload src p rp =
     (if length src = 0 then (Some SourceEmpty, p, rp)
      else let (p1, rp1) = GetChunk p rp in
        case chunk p1 of
          None \<Rightarrow> (Some NilChunk, p1, rp1)
        | Some e \<Rightarrow>
            (case Copy src (Data e) of
               (Some err, d) \<Rightarrow>
                 let (p2, rp2) = ReturnChunk (p1\<lparr> chunk := Some (e\<lparr> Data := d \<rparr>) \<rparr>) rp1
                 in (Some err, p2, rp2)
             | (None, d) \<Rightarrow>
                 (None, p1\<lparr> chunk := Some (e\<lparr> Data := d \<rparr>), Payload := GetSlice d \<rparr>, rp1)))"

function parse_sack :: "bytes \<Rightarrow> nat \<Rightarrow> nat \<Rightarrow> sackblock list go" where
  "parse_sack opt j stop =
     (if j < stop
      then if length opt < j + 8 then Panic
           else go_bind (parse_sack opt (j + 8) stop) (\<lambda>bs.
             Return (\<lparr> leftEdge = Uint32 (slice opt j (j + 4)),
                       rightEdge = Uint32 (slice opt (j + 4) (j + 8)) \<rparr> # bs))
      else Return [])"
  by pat_completeness auto
termination by (relation "measure (\<lambda>(opt, j, stop). stop - j)") auto

declare parse_sack.simps [simp del]

definition parse_option :: "bytes \<Rightarrow> nat \<Rightarrow> nat \<Rightarrow> options \<Rightarrow> (u8 \<times> options) go" where
  \<comment> \<open>one turn of the loop at offset \<open>i\<close>, where the kind is not 0: the option's length, and what
     it sets\<close>
  "parse_option opt n i opts =
     (let kind = opt ! i; optionLength = opt ! (i + 1) in
      if kind = 1 then Return (1, opts)
      else if kind = 3 then Return (optionLength,
        if optionLength = 3 \<and> i + 3 \<le> n then opts\<lparr> windowScaleShiftCount := opt ! (i + 2) \<rparr> else opts)
      else if kind = 2 then Return (optionLength,
        if optionLength = 4 \<and> i + 4 \<le> n then opts\<lparr> mss := Uint16 (slice opt (i + 2) (i + 4)) \<rparr> else opts)
      else if kind = 4 then Return (optionLength,
        if optionLength = 2 then opts\<lparr> permitSack := True \<rparr> else opts)
      else if kind = 5 then
        (if optionLength > 2 \<and> i + unat optionLength \<le> n
         then go_bind (parse_sack opt (i + 2) (i + unat optionLength)) (\<lambda>bs. Return (optionLength,
           opts\<lparr> inSACKOption := \<lparr> blocks = blocks (inSACKOption opts) @ bs \<rparr> \<rparr>))
         else Return (optionLength, opts))
      else if kind = 8 then Return (optionLength,
        if optionLength = 10 \<and> i + 10 \<le> n
        then opts\<lparr> timestampEnabled := True, timestamp := Uint32 (slice opt (i + 2) (i + 6)),
                   tsEchoReplyValue := Uint32 (slice opt (i + 6) (i + 10)) \<rparr>
        else opts)
      else Return (optionLength, opts))"

fun parse_options :: "nat \<Rightarrow> bytes \<Rightarrow> nat \<Rightarrow> nat \<Rightarrow> options \<Rightarrow> options go option" where
  "parse_options 0 opt n i opts = None"
| "parse_options (Suc fuel) opt n i opts =
     (if i + 1 < n
      then if opt ! i = 0 then Some (Return opts)
           else case parse_option opt n i opts of
               Return (optionLength, opts') \<Rightarrow> parse_options fuel opt n (i + unat optionLength) opts'
             | Panic \<Rightarrow> Some Panic
             | Fatal \<Rightarrow> Some Fatal
      else Some (Return opts))"

datatype unmarshal_error = TooShort nat | NegativeOptions int | IllFormed nat nat | PayloadError copy_error

definition Unmarshal :: "nat \<Rightarrow> packet \<Rightarrow> bytes \<Rightarrow> nat \<Rightarrow> addr \<Rightarrow> addr \<Rightarrow> ring_pool
    \<Rightarrow> (unmarshal_error option \<times> packet \<times> ring_pool) go option" where
  "Unmarshal fuel p buf n srcAddr destAddr rp =
     (if n < TcpHeaderLength then Some (Return (Some (TooShort n), p, rp))
      else
        let p1 = p\<lparr> SrcAddr := srcAddr, DestAddr := destAddr,
                    SourcePort := Uint16 (slice buf 0 2), DestinationPort := Uint16 (slice buf 2 4),
                    SequenceNumber := Uint32 (slice buf 4 8),
                    AcknowledgmentNum := Uint32 (slice buf 8 12), Flags := buf ! 13,
                    WindowSize := Uint16 (slice buf 14 16), UrgentPointer := Uint16 (slice buf 18 20) \<rparr>;
            dataOffset = unat (drop_bit 4 (buf ! 12) * 4)
        in if dataOffset < TcpHeaderLength
           then Some (Return (Some (NegativeOptions (int dataOffset - int TcpHeaderLength)), p1, rp))
           else if length buf < dataOffset then Some Panic
           else
             let opts = (case TcpOptions p1 of Some opts \<Rightarrow> opts | None \<Rightarrow> zero_options)
             in case parse_options fuel (drop TcpHeaderLength buf) (dataOffset - TcpHeaderLength) 0 opts of
                 None \<Rightarrow> None
               | Some Panic \<Rightarrow> Some Panic
               | Some Fatal \<Rightarrow> Some Fatal
               | Some (Return opts') \<Rightarrow>
                   let p2 = p1\<lparr> TcpOptions := Some opts' \<rparr>
                   in if dataOffset > n then Some (Return (Some (IllFormed dataOffset n), p2, rp))
                      else let (err, p3, rp3) =
                             (if dataOffset < n then CopyToPayload (slice buf dataOffset n) p2 rp
                              else (None, p2\<lparr> Payload := [] \<rparr>, rp))
                           in case err of
                               Some e \<Rightarrow> Some (Return (Some (PayloadError e), p3, rp3))
                             | None \<Rightarrow> Some (Return (None, p3\<lparr> Checksum := Uint16 (slice buf 16 18) \<rparr>, rp3)))"

datatype ip_error = ShortHeader | ShortPacket

definition ExtractIpPayload :: "bytes \<Rightarrow> ip_error + nat" where
  "ExtractIpPayload ipFrame =
     (if length ipFrame < 20 then Inl ShortHeader
      else let headerLen = unat (ipFrame ! 0 AND 0x0F) * 4
           in if length ipFrame < headerLen then Inl ShortPacket else Inr headerLen)"

section \<open>Parsing what was encoded\<close>

definition parses_to :: "bytes \<Rightarrow> nat \<Rightarrow> nat \<Rightarrow> options \<Rightarrow> options \<Rightarrow> bool" where
  "parses_to opt n i opts r \<longleftrightarrow> (\<forall>fuel. n - i < fuel \<longrightarrow> parse_options fuel opt n i opts = Some (Return r))"

lemma parses_to_end: "n \<le> i + 1 \<Longrightarrow> parses_to opt n i opts opts"
  unfolding parses_to_def by (auto simp: gr0_conv_Suc elim!: less_natE)

lemma parses_to_step:
  assumes "parse_option opt n i opts = Return (len, opts')" "opt ! i \<noteq> 0" "i + 1 < n" "0 < unat len"
    and "parses_to opt n (i + unat len) opts' r"
  shows "parses_to opt n i opts r"
  unfolding parses_to_def
proof (intro allI impI)
  fix fuel assume "n - i < fuel"
  then obtain f where "fuel = Suc f" "n - (i + unat len) < f"
    using assms(3,4) by (cases fuel) auto
  then show "parse_options fuel opt n i opts = Some (Return r)"
    using assms by (simp add: parses_to_def)
qed

lemma parses_to_nops:
  "parses_to (pre @ replicate k 1 @ suf) (length pre + k) (length pre) opts opts"
proof (induction k arbitrary: pre)
  case 0
  show ?case by (rule parses_to_end) simp
next
  case (Suc k)
  have IH: "parses_to (pre @ replicate (Suc k) 1 @ suf) (length pre + Suc k) (length pre + 1) opts opts"
    using Suc [of "pre @ [1]"] by (simp add: replicate_append_same)
  show ?case
  proof (cases "k = 0")
    case False
    then show ?thesis
      by (intro parses_to_step [OF _ _ _ _ IH [folded unsigned_1 [where 'b = 8 and 'a = nat]]])
        (simp_all add: parse_option_def nth_append)
  qed (simp add: parses_to_end)
qed

text \<open>Each option as \<open>Marshal\<close> writes it, when the buffer holds it whole.\<close>

lemma parses_enc_step:
  assumes "parses_to (pre @ enc @ suf) n (length (pre @ enc)) opts' r"
    and "parse_option (pre @ enc @ suf) n (length pre) opts = Return (len, opts')"
    and "enc = k # l # rest" "k \<noteq> 0" "unat len = length enc" "length (pre @ enc) \<le> n"
  shows "parses_to (pre @ enc @ suf) n (length pre) opts r"
  using assms by (intro parses_to_step [of _ n "length pre" opts len opts' r]) (simp_all add: nth_append)

lemma parses_ws:
  assumes "parses_to (pre @ enc_ws p o' @ suf) n (length (pre @ enc_ws p o'))
      (if has_ws p o' then opts\<lparr> windowScaleShiftCount := windowScaleShiftCount o' \<rparr> else opts) r"
    and "length (pre @ enc_ws p o') \<le> n"
  shows "parses_to (pre @ enc_ws p o' @ suf) n (length pre) opts r"
proof (cases "has_ws p o'")
  case True
  show ?thesis
    by (rule parses_enc_step [OF assms(1) _ _ _ _ assms(2)])
      (use True assms(2) in \<open>simp_all add: enc_ws_def parse_option_def nth_append\<close>, simp_all)
qed (use assms in \<open>simp add: enc_ws_def\<close>)

lemma parses_mss:
  assumes "parses_to (pre @ enc_mss p o' @ suf) n (length (pre @ enc_mss p o'))
      (if has_mss p o' then opts\<lparr> mss := mss o' \<rparr> else opts) r"
    and "length (pre @ enc_mss p o') \<le> n"
  shows "parses_to (pre @ enc_mss p o' @ suf) n (length pre) opts r"
proof (cases "has_mss p o'")
  case True
  show ?thesis
    by (rule parses_enc_step [OF assms(1) _ _ _ _ assms(2)])
      (use True assms(2) in \<open>simp_all add: enc_mss_def parse_option_def nth_append bytes_simps\<close>, simp_all)
qed (use assms in \<open>simp add: enc_mss_def\<close>)

lemma parses_permit:
  assumes "parses_to (pre @ enc_permit p o' @ suf) n (length (pre @ enc_permit p o'))
      (if has_permit p o' then opts\<lparr> permitSack := True \<rparr> else opts) r"
    and "length (pre @ enc_permit p o') \<le> n"
  shows "parses_to (pre @ enc_permit p o' @ suf) n (length pre) opts r"
proof (cases "has_permit p o'")
  case True
  show ?thesis
    by (rule parses_enc_step [OF assms(1) _ _ _ _ assms(2)])
      (use True assms(2) in \<open>simp_all add: enc_permit_def parse_option_def nth_append\<close>, simp_all)
qed (use assms in \<open>simp add: enc_permit_def\<close>)

lemma parses_timestamp:
  assumes "parses_to (pre @ enc_timestamp now o' @ suf) n (length (pre @ enc_timestamp now o'))
      (if timestampEnabled o' then opts\<lparr> timestampEnabled := True, timestamp := word_of_int now,
         tsEchoReplyValue := tsEchoReplyValue o' \<rparr> else opts) r"
    and "length (pre @ enc_timestamp now o') \<le> n"
  shows "parses_to (pre @ enc_timestamp now o' @ suf) n (length pre) opts r"
proof (cases "timestampEnabled o'")
  case True
  show ?thesis
    by (rule parses_enc_step [OF assms(1) _ _ _ _ assms(2)])
      (use True assms(2) in \<open>simp_all add: enc_timestamp_def parse_option_def nth_append bytes_simps\<close>, simp_all)
qed (use assms in \<open>simp add: enc_timestamp_def\<close>)

lemma parse_sack_blocks:
  "parse_sack (pre @ enc_blocks bs @ suf) (length pre) (length pre + 8 * length bs) = Return bs"
proof (induction bs arbitrary: pre)
  case Nil
  show ?case by (simp add: parse_sack.simps)
next
  case (Cons b bs)
  have IH: "parse_sack (pre @ enc_blocks (b # bs) @ suf) (length pre + 8) (length pre + 8 * length (b # bs)) = Return bs"
    using Cons [of "pre @ be32 (leftEdge b) @ be32 (rightEdge b)"] by (simp add: enc_blocks_def add.assoc)
  show ?case
    by (subst parse_sack.simps, subst IH) (simp add: enc_blocks_def bytes_simps)
qed

lemma parses_sack:
  assumes "parses_to (pre @ enc_sack p o' @ suf) n (length (pre @ enc_sack p o'))
      (if has_sack p o' then opts\<lparr> inSACKOption := \<lparr> blocks = blocks (inSACKOption opts)
         @ blocks (outSACKOption o') \<rparr> \<rparr> else opts) r"
    and "length (pre @ enc_sack p o') \<le> n" "length (enc_sack p o') < 256"
  shows "parses_to (pre @ enc_sack p o' @ suf) n (length pre) opts r"
proof (cases "has_sack p o'")
  case True
  let ?bs = "blocks (outSACKOption o')"
  define l where "l = (word_of_nat (2 + length ?bs * 8) :: u8)"
  have e: "enc_sack p o' = 5 # l # enc_blocks ?bs" using True by (simp add: enc_sack_def l_def)
  have le: "length (enc_sack p o') = 2 + length ?bs * 8" by (simp add: e)
  have l: "unat l = 2 + length ?bs * 8"
    unfolding l_def unat_of_nat using assms(3) by (simp add: le)
  have g: "2 < l" using True by (simp add: word_less_nat_alt l has_sack_def)
  have s: "parse_sack (pre @ enc_sack p o' @ suf) (length pre + 2) (length pre + unat l) = Return ?bs"
    using parse_sack_blocks [of "pre @ [5, l]" ?bs suf] by (simp add: e l ac_simps)
  show ?thesis
    by (rule parses_enc_step [OF assms(1) _ e _ _ assms(2)])
      (use True assms(2) g s in \<open>simp_all add: parse_option_def nth_append e l add.assoc\<close>, simp_all add: l)
qed (use assms in \<open>simp add: enc_sack_def\<close>)

definition received_options :: "int \<Rightarrow> packet \<Rightarrow> options \<Rightarrow> options" where
  \<comment> \<open>what a fresh packet learns from the options \<open>Marshal\<close> writes\<close>
  "received_options now p opts = zero_options\<lparr>
     windowScaleShiftCount := if has_ws p opts then windowScaleShiftCount opts else 0,
     mss := if has_mss p opts then mss opts else 0,
     permitSack := has_permit p opts,
     timestampEnabled := timestampEnabled opts,
     timestamp := if timestampEnabled opts then word_of_int now else 0,
     tsEchoReplyValue := if timestampEnabled opts then tsEchoReplyValue opts else 0,
     inSACKOption := if has_sack p opts then outSACKOption opts else \<lparr> blocks = [] \<rparr> \<rparr>"

lemma parses_enc_options:
  assumes "options_wanted p opts \<le> 40"
  shows "parses_to (enc_options now p opts @ suf) (length (enc_options now p opts)) 0 zero_options
    (received_options now p opts)"
proof -
  define n where "n = length (enc_options now p opts)"
  define pad where "pad = replicate (options_padding (options_length p opts)) (1::u8)"
  let ?ws = "enc_ws p opts" and ?ms = "enc_mss p opts" and ?pm = "enc_permit p opts"
    and ?sk = "enc_sack p opts" and ?ts = "enc_timestamp now opts"
  have n: "n = length ?ws + (length ?ms + (length ?pm + (length ?sk + (length ?ts + length pad))))"
    by (simp add: enc_options_def n_def pad_def)
  have sk: "length ?sk < 256" using assms by (auto simp: options_wanted_def enc_sack_def)
  define o1 where "o1 = (if has_ws p opts then zero_options\<lparr> windowScaleShiftCount := windowScaleShiftCount opts \<rparr> else zero_options)"
  define o2 where "o2 = (if has_mss p opts then o1\<lparr> mss := mss opts \<rparr> else o1)"
  define o3 where "o3 = (if has_permit p opts then o2\<lparr> permitSack := True \<rparr> else o2)"
  define o4 where "o4 = (if has_sack p opts then o3\<lparr> inSACKOption := \<lparr> blocks = blocks (inSACKOption o3)
         @ blocks (outSACKOption opts) \<rparr> \<rparr> else o3)"
  define o5 where "o5 = (if timestampEnabled opts then o4\<lparr> timestampEnabled := True, timestamp := word_of_int now,
         tsEchoReplyValue := tsEchoReplyValue opts \<rparr> else o4)"
  have o5: "o5 = received_options now p opts"
    by (simp add: o1_def o2_def o3_def o4_def o5_def received_options_def zero_options_def)
  let ?all = "?ws @ ?ms @ ?pm @ ?sk @ ?ts @ pad @ suf"
  have t5: "parses_to ?all n (length (?ws @ ?ms @ ?pm @ ?sk @ ?ts)) o5 o5"
    using parses_to_nops [of "?ws @ ?ms @ ?pm @ ?sk @ ?ts" "length pad" suf o5] by (simp add: n pad_def add.assoc)
  have t4: "parses_to ?all n (length (?ws @ ?ms @ ?pm @ ?sk)) o4 o5"
    using parses_timestamp [of "?ws @ ?ms @ ?pm @ ?sk" now opts "pad @ suf" n o4 o5] t5
    by (simp add: n add.assoc flip: o5_def)
  have t3: "parses_to ?all n (length (?ws @ ?ms @ ?pm)) o3 o5"
    using parses_sack [of "?ws @ ?ms @ ?pm" p opts "?ts @ pad @ suf" n o3 o5] t4 sk
    by (simp add: n add.assoc flip: o4_def)
  have t2: "parses_to ?all n (length (?ws @ ?ms)) o2 o5"
    using parses_permit [of "?ws @ ?ms" p opts "?sk @ ?ts @ pad @ suf" n o2 o5] t3
    by (simp add: n add.assoc flip: o3_def)
  have t1: "parses_to ?all n (length ?ws) o1 o5"
    using parses_mss [of ?ws p opts "?pm @ ?sk @ ?ts @ pad @ suf" n o1 o5] t2
    by (simp add: n add.assoc flip: o2_def)
  have "parses_to ?all n 0 zero_options o5"
    using parses_ws [of "[]" p opts "?ms @ ?pm @ ?sk @ ?ts @ pad @ suf" n zero_options o5] t1
    by (simp add: n add.assoc flip: o1_def)
  then show ?thesis by (simp add: o5 enc_options_def n_def pad_def)
qed

section \<open>Unmarshalling a marshalled frame\<close>

lemma marshal_pseudo_header:
  assumes "Marshal now p proto buffer = Return (Inr (n, out))" "TcpOptions p = Some opts"
  shows "\<exists>ph. assemblePseudoHeader (take 12 buffer) (SrcAddr p) (DestAddr p) proto
    (word_of_nat (total_header_length p opts + length (Payload p))) = Return (Inr ph)"
proof (cases "assemblePseudoHeader (take 12 buffer) (SrcAddr p) (DestAddr p) proto
    (word_of_nat (total_header_length p opts + length (Payload p)))")
  case (Return r)
  then show ?thesis using assms by (cases r) (auto simp: Marshal_def Let_def split: if_splits)
qed (use assms in \<open>auto simp: Marshal_def Let_def split: if_splits\<close>)

lemma data_offset_bits: "m \<le> 15 \<Longrightarrow> unat (drop_bit 4 (push_bit 4 (word_of_nat m)) * 4 :: u8) = 4 * m"
proof -
  assume "m \<le> 15"
  then have "m \<in> {0, 1, 2, 3, 4, 5, 6, 7, 8, 9, 10, 11, 12, 13, 14, 15}" by simp arith
  then show ?thesis by auto
qed

lemma total_header_length_range:
  "\<exists>m\<le>15. 5 \<le> m \<and> total_header_length p opts = 4 * m"
proof -
  define l where "l = options_length p opts"
  have "l \<le> 40" by (simp add: l_def options_length_def)
  moreover have "(l + options_padding l) mod 4 = 0"
    by (simp add: options_padding_def) presburger
  moreover have "options_padding l < 4" by (simp add: options_padding_def)
  ultimately obtain q where "l + options_padding l = 4 * q" "q \<le> 10"
    by (auto simp: mod_eq_0_iff_dvd elim!: dvdE)
  then show ?thesis
    by (intro exI [of _ "5 + q"]) (simp add: total_header_length_def flip: l_def)
qed

definition rcv_base :: "addr \<Rightarrow> addr \<Rightarrow> packet \<Rightarrow> packet" where
  "rcv_base src dst p = zero_packet\<lparr> SrcAddr := src, DestAddr := dst, SourcePort := SourcePort p,
     DestinationPort := DestinationPort p, SequenceNumber := SequenceNumber p,
     AcknowledgmentNum := AcknowledgmentNum p, Flags := Flags p, WindowSize := WindowSize p,
     UrgentPointer := UrgentPointer p \<rparr>"

lemma unmarshal_frame:
  assumes "options_wanted p opts \<le> 40" "40 < fuel"
    and "Payload p \<noteq> [] \<Longrightarrow> answers rp = Some e # rest \<and> length (payloadBytes (Data e)) = 65536"
    and "length (Payload p) \<le> 65536"
  shows "\<exists>ch rp'. Unmarshal fuel zero_packet (frame_of now p opts ck @ junk)
      (total_header_length p opts + length (Payload p)) src dst rp
    = Some (Return (None, (rcv_base src dst p)\<lparr> TcpOptions := Some (received_options now p opts),
        chunk := ch, Payload := Payload p, Checksum := ck \<rparr>, rp'))"
proof -
  define t where "t = total_header_length p opts"
  obtain m where m: "m \<le> 15" "5 \<le> m" "t = 4 * m"
    using total_header_length_range [of p opts] t_def by blast
  let ?h = "enc_header p t ck"
  let ?buf = "?h @ enc_options now p opts @ Payload p @ junk"
  have buf: "frame_of now p opts ck @ junk = ?buf" by (simp add: frame_of_def t_def)
  have lo: "length (enc_options now p opts) = t - 20"
    using assms(1) by (simp add: length_enc_options total_header_length_def t_def)
  have do: "unat (drop_bit 4 ((?h @ x) ! 12) * 4) = t" for x
    using data_offset_bits [OF m(1)] m by (simp add: enc_header_def be16_def be32_def)
  have hdr: "slice (?h @ x) 0 2 = be16 (SourcePort p)" "slice (?h @ x) 2 4 = be16 (DestinationPort p)"
    "slice (?h @ x) 4 8 = be32 (SequenceNumber p)" "slice (?h @ x) 8 12 = be32 (AcknowledgmentNum p)"
    "(?h @ x) ! 13 = Flags p" "slice (?h @ x) 14 16 = be16 (WindowSize p)"
    "slice (?h @ x) 16 18 = be16 ck" "slice (?h @ x) 18 20 = be16 (UrgentPointer p)" for x
    by (simp_all add: enc_header_def bytes_simps nth_append)
  have opt: "parse_options fuel (enc_options now p opts @ Payload p @ junk) (t - 20) 0 zero_options
      = Some (Return (received_options now p opts))"
    using parses_enc_options [OF assms(1), of now "Payload p @ junk"] assms(2) m
    by (simp add: parses_to_def lo)
  have pay: "slice ?buf t (t + length (Payload p)) = Payload p"
    using lo m by (simp add: bytes_simps)
  have fits: "t \<le> length ?buf" "20 \<le> t" using lo m by simp_all
  have U: "Unmarshal fuel zero_packet ?buf (t + length (Payload p)) src dst rp =
     (let p2 = (rcv_base src dst p)\<lparr> TcpOptions := Some (received_options now p opts) \<rparr>;
          (err, p3, rp3) = (if Payload p \<noteq> [] then CopyToPayload (Payload p) p2 rp
                            else (None, p2\<lparr> Payload := [] \<rparr>, rp))
      in case err of Some e \<Rightarrow> Some (Return (Some (PayloadError e), p3, rp3))
         | None \<Rightarrow> Some (Return (None, p3\<lparr> Checksum := ck \<rparr>, rp3)))"
    using fits opt lo
    by (simp add: Unmarshal_def Let_def do hdr pay rcv_base_def zero_packet_def split: prod.split option.split)
  show ?thesis
  proof (cases "Payload p = []")
    case True
    show ?thesis
      unfolding buf t_def [symmetric] U using True by (simp add: rcv_base_def zero_packet_def)
  next
    case False
    obtain d where c: "Copy (Payload p) (Data e) = (None, d)"
      using assms(3,4) False Copy_ok_iff [of "Payload p" "Data e"] by (cases "Copy (Payload p) (Data e)") auto
    then have "GetSlice d = Payload p" using Copy_slice [of "Payload p" "Data e"] by simp
    then show ?thesis
      unfolding buf t_def [symmetric] U using assms(3) False c
      by (simp add: rcv_base_def zero_packet_def CopyToPayload_def GetChunk_def GetElement_def Let_def)
  qed
qed

section \<open>More SACK blocks than fit\<close>

lemma write_blocks_stop: "52 \<le> off \<Longrightarrow> write_blocks bs (off, frame) = (off, frame)"
  by (cases bs) simp_all

lemma write_blocks_append:
  "length pre + 8 * length as < 60 \<Longrightarrow>
   write_blocks (as @ bs) (length pre, pre @ suf)
    = write_blocks bs (length (pre @ enc_blocks as), (pre @ enc_blocks as) @ drop (length (enc_blocks as)) suf)"
proof (induction as arbitrary: pre suf)
  case Nil
  then show ?case by (simp add: enc_blocks_def)
next
  case (Cons b as)
  have w: "copy_at (length pre + 4) (be32 (rightEdge b)) (copy_at (length pre) (be32 (leftEdge b)) (pre @ suf))
      = (pre @ be32 (leftEdge b) @ be32 (rightEdge b)) @ drop 8 suf"
    by (simp add: bytes_simps)
  show ?case
    using Cons.prems Cons.IH [of "pre @ be32 (leftEdge b) @ be32 (rightEdge b)" "drop 8 suf"] w
    by (simp add: enc_blocks_def add.commute)
qed

lemma write_blocks_overflow:
  assumes "length pre = 22" "4 \<le> length bs"
  shows "write_blocks bs (22, pre @ suf) = (54, pre @ enc_blocks (take 4 bs) @ drop 32 suf)"
  using write_blocks_append [of pre "take 4 bs" "drop 4 bs" suf] assms
  by (simp add: write_blocks_stop)

definition overflow_frame :: "packet \<Rightarrow> options \<Rightarrow> bytes \<Rightarrow> u16 \<Rightarrow> bytes" where
  \<comment> \<open>the frame whose SACK option does not fit, in a buffer with the given old content\<close>
  "overflow_frame p opts buffer ck = enc_header p 60 ck
     @ [5, word_of_nat (2 + length (blocks (outSACKOption opts)) * 8)]
     @ enc_blocks (take 4 (blocks (outSACKOption opts))) @ slice buffer 66 72 @ Payload p"

lemma write_options_overflow:
  assumes "has_sack p opts" "options_wanted p opts > 40" "length pre = 20" "length suf \<ge> 40"
  shows "write_padding (options_padding (options_length p opts))
      (write_timestamp now opts (write_sack p opts (write_permit p opts
      (write_mss p opts (write_ws p opts (20, pre @ suf))))))
    = pre @ [5, word_of_nat (2 + length (blocks (outSACKOption opts)) * 8)]
       @ enc_blocks (take 4 (blocks (outSACKOption opts))) @ drop 34 suf"
proof -
  have no: "\<not> has_ws p opts" "\<not> has_mss p opts" "\<not> has_permit p opts"
    using assms(1) by (simp_all add: has_ws_def has_mss_def has_permit_def has_sack_def)
  define bs where "bs = blocks (outSACKOption opts)"
  define h where "h = [5, word_of_nat (2 + length bs * 8)] @ ([] :: bytes)"
  have l4: "4 \<le> length bs"
    using assms(1,2) no by (simp add: options_wanted_def bs_def split: if_splits)
  have "write_sack p opts (20, pre @ suf) = write_blocks bs (22, (pre @ h) @ drop 2 suf)"
    using assms(1,3) by (simp add: write_sack_def bs_def h_def bytes_simps numeral_2_eq_2 Let_def)
  also have "\<dots> = (54, (pre @ h) @ enc_blocks (take 4 bs) @ drop 32 (drop 2 suf))"
    by (rule write_blocks_overflow) (use l4 assms(3) in \<open>simp_all add: h_def\<close>)
  finally show ?thesis
    using no assms(2)
    by (simp add: write_ws_def write_mss_def write_permit_def write_timestamp_def write_padding_def
        options_padding_def options_length_def bs_def h_def bytes_simps)
qed

lemma marshal_overflow_layout:
  assumes "Marshal now p proto buffer = Return (Inr (n, out))" "TcpOptions p = Some opts"
    and "has_sack p opts" "options_wanted p opts > 40"
  shows "n = 60 + length (Payload p)" "\<exists>ck. take n (drop 12 out) = overflow_frame p opts buffer ck"
    "length out = length buffer"
proof -
  let ?m = "60 + length (Payload p)"
  have t: "total_header_length p opts = 60"
    using assms(4) by (simp add: total_header_length_def options_length_def options_padding_def)
  have fits: "?m + 12 \<le> length buffer"
    using assms(1,2) by (auto simp: Marshal_def Let_def t split: if_splits)
  obtain ph where aph: "assemblePseudoHeader (take 12 buffer) (SrcAddr p) (DestAddr p) proto (word_of_nat ?m) = Return (Inr ph)"
    using marshal_pseudo_header [OF assms(1,2)] by (auto simp: t)
  have "length (take 12 buffer) = 12" using fits by simp
  then have lph: "length ph = 12"
    using aph by (auto simp: assemblePseudoHeader_def split: if_splits addr.splits option.splits)
  define suf where "suf = drop 20 (drop 12 buffer)"
  let ?f = "overflow_frame p opts buffer"
  have ls: "length suf \<ge> 40" using fits by (simp add: suf_def)
  note f2 = write_options_overflow [where pre = "enc_header p 60 0" and now = now, OF assms(3,4) length_enc_header ls]
  have st: "drop 34 suf = slice buffer 66 72 @ drop 72 buffer"
    unfolding suf_def slice_def drop_drop using append_take_drop_id [of 6 "drop 66 buffer"] by simp
  have l4: "4 \<le> length (blocks (outSACKOption opts))"
    using assms(3,4) by (auto simp: options_wanted_def has_ws_def has_mss_def has_permit_def has_sack_def
        split: if_splits)
  have f3: "(if length (Payload p) > 0 then copy_at 60 (Payload p) x else x) = ?f 0 @ drop (?m + 12) buffer"
    if "x = enc_header p 60 0 @ [5, word_of_nat (2 + length (blocks (outSACKOption opts)) * 8)]
       @ enc_blocks (take 4 (blocks (outSACKOption opts))) @ drop 34 suf" for x
    using fits l4 by (simp add: that st overflow_frame_def bytes_simps add.commute min_def)
  have nb: "(length buffer < ?m + 12) = False" using fits by simp
  have lf: "length (?f c) = ?m" for c using fits l4 by (simp add: overflow_frame_def)
  have tk: "take ?m (?f c @ r) = ?f c" for c r by (simp add: lf)
  have ck: "copy_at 16 (be16 c) (?f 0 @ r) = ?f c @ r" for c r
    by (simp add: overflow_frame_def copy_checksum)
  have wh: "write_header p 60 (drop 12 buffer) = enc_header p 60 0 @ suf"
    by (simp add: write_header_layout suf_def)
  have "Marshal now p proto buffer = Return (Inr (?m,
      ph @ ?f (CalculateChecksum (ph @ ?f 0)) @ drop (?m + 12) buffer))"
    by (simp only: Marshal_def assms(2) option.case Let_def t TcpPseudoHeaderLength_def TcpHeaderLength_def
        nb if_False wh f2 aph go_bind.simps sum.case f3 [OF refl] tk ck)
  then have "n = ?m" "out = ph @ ?f (CalculateChecksum (ph @ ?f 0)) @ drop (?m + 12) buffer"
    using assms(1) by auto
  then show "n = 60 + length (Payload p)" "\<exists>ck. take n (drop 12 out) = ?f ck" "length out = length buffer"
    using lph tk lf fits by auto
qed

lemma marshal_keeps_length:
  assumes "Marshal now p proto buffer = Return (Inr (n, out))"
  shows "length out = length buffer"
proof -
  obtain opts where o: "TcpOptions p = Some opts" using assms by (cases "TcpOptions p") (simp_all add: Marshal_def)
  show ?thesis
  proof (cases "options_wanted p opts \<le> 40")
    case True
    let ?m = "total_header_length p opts + length (Payload p)"
    have fits: "?m + 12 \<le> length buffer"
      using assms o by (auto simp: Marshal_def Let_def split: if_splits)
    obtain ph where aph: "assemblePseudoHeader (take 12 buffer) (SrcAddr p) (DestAddr p) proto (word_of_nat ?m) = Return (Inr ph)"
      using marshal_pseudo_header [OF assms o] by blast
    have "length (take 12 buffer) = 12" using fits by simp
    then have "length ph = 12"
      using aph by (auto simp: assemblePseudoHeader_def split: if_splits addr.splits option.splits)
    then show ?thesis
      using assms marshal_layout [OF o True aph fits] length_frame_of [OF True] fits by auto
  next
    case False
    then have "has_sack p opts" by (simp add: options_wanted_def has_ws_def has_mss_def has_permit_def split: if_splits)
    then show ?thesis using marshal_overflow_layout(3) [OF assms o] False by simp
  qed
qed

lemma total_header_at_most_60: "total_header_length p opts \<le> 60"
proof -
  have "n \<le> 40 \<Longrightarrow> n + (if n mod 4 \<noteq> 0 then 4 - n mod 4 else 0) \<le> 40" for n :: nat by presburger
  moreover have "options_length p opts \<le> 40" by (simp add: options_length_def)
  ultimately have "options_length p opts + options_padding (options_length p opts) \<le> 40"
    unfolding options_padding_def by blast
  then show ?thesis by (simp add: total_header_length_def)
qed

lemma marshal_fits:
  assumes "TcpOptions p = Some opts" "SrcAddr p = IPAddr a" "DestAddr p = IPAddr b" "To4 a \<noteq> None" "To4 b \<noteq> None"
    and "60 + length (Payload p) + 12 \<le> length buffer"
  shows "\<exists>n out. Marshal now p proto buffer = Return (Inr (n, out))"
proof -
  obtain a4 b4 where ip: "To4 a = Some a4" "To4 b = Some b4" using assms(4,5) by auto
  have "length (take 12 buffer) = 12" using assms(6) by simp
  then show ?thesis
    using assms total_header_at_most_60 [of p opts] by (simp add: Marshal_def Let_def assemblePseudoHeader_ok [OF ip])
qed

section \<open>The option loop\<close>

lemma zero_length_option:
  "opt ! i \<noteq> 1 \<Longrightarrow> opt ! (i + 1) = 0 \<Longrightarrow> parse_option opt n i opts = Return (0, opts)"
  by (simp add: parse_option_def Let_def)

lemma zero_length_option_stuck:
  "i + 1 < n \<Longrightarrow> opt ! i \<noteq> 0 \<Longrightarrow> opt ! i \<noteq> 1 \<Longrightarrow> opt ! (i + 1) = 0 \<Longrightarrow>
   parse_options fuel opt n i opts = None"
  using zero_length_option [of opt i n opts] by (induction fuel) simp_all

lemma parse_sack_no_panic:
  "stop + 7 \<le> length opt \<Longrightarrow> \<exists>bs. parse_sack opt j stop = Return bs"
proof (induction opt j stop rule: parse_sack.induct)
  case (1 opt j stop)
  then show ?case by (subst parse_sack.simps) (cases "j < stop", auto)
qed

lemma parse_option_returns:
  assumes "n + 7 \<le> length opt"
  shows "\<exists>len opts'. parse_option opt n i opts = Return (len, opts')"
proof -
  have "\<exists>bs. parse_sack opt (i + 2) (i + unat (opt ! (i + 1))) = Return bs" if "i + unat (opt ! (i + 1)) \<le> n"
    by (rule parse_sack_no_panic) (use that assms in linarith)
  then show ?thesis by (auto simp: parse_option_def Let_def)
qed

lemma parse_option_length:
  assumes "parse_option opt n i opts = Return (len, opts')" "opt ! i \<noteq> 1"
  shows "len = opt ! (i + 1)"
  using assms by (auto simp: parse_option_def Let_def go_simps split: if_splits)

lemma parse_options_no_panic:
  "n + 7 \<le> length opt \<Longrightarrow> parse_options fuel opt n i opts = Some r \<Longrightarrow> \<exists>o'. r = Return o'"
proof (induction fuel arbitrary: i opts)
  case (Suc fuel)
  obtain len opts' where "parse_option opt n i opts = Return (len, opts')"
    using parse_option_returns [OF Suc.prems(1)] by blast
  then show ?case using Suc by (auto split: if_splits)
qed simp

lemma parse_options_enough_fuel:
  "parse_options fuel opt n i opts = Some r \<Longrightarrow> n - i < fuel' \<Longrightarrow> parse_options fuel' opt n i opts = Some r"
proof (induction fuel arbitrary: i opts fuel')
  case (Suc fuel)
  obtain f where f: "fuel' = Suc f" using Suc.prems(2) by (cases fuel') auto
  show ?case
  proof (cases "i + 1 < n \<and> opt ! i \<noteq> 0")
    case True
    show ?thesis
    proof (cases "parse_option opt n i opts")
      case (Return lo)
      obtain len opts' where lo: "lo = (len, opts')" by (cases lo)
      have step: "parse_options fuel opt n (i + unat len) opts' = Some r"
        using Suc.prems(1) True Return lo by simp
      have "0 < unat len"
      proof (rule ccontr)
        assume "\<not> 0 < unat len"
        then have z: "len = 0" by (simp add: unat_eq_zero)
        have k: "opt ! i \<noteq> 1" using Return lo z by (auto simp: parse_option_def Let_def)
        have "opt ! (i + 1) = 0" using parse_option_length Return lo z k by metis
        then show False using zero_length_option_stuck [of i n opt "Suc fuel" opts] Suc.prems(1) True k by simp
      qed
      then have "n - (i + unat len) < f" using Suc.prems(2) True f by linarith
      then show ?thesis using Suc.IH [OF step] True Return lo f by simp
    qed (use Suc.prems True f in simp_all)
  next
    case False
    then show ?thesis using Suc.prems(1) f by (cases "i + 1 < n") simp_all
  qed
qed simp

lemma unat_high_nibble: "unat (drop_bit 4 (b :: u8)) \<le> 15"
proof -
  have "unat (drop_bit 4 b) = unat b div 16" unfolding unsigned_drop_bit_eq by (simp add: drop_bit_eq_div take_bit_nat_eq_self)
  then show ?thesis using unat_u8_less [of b] by linarith
qed

section \<open>What was marshalled is read\<close>

lemma marshal_frame:
  assumes "Marshal now p proto buffer = Return (Inr (n, out))"
    and "TcpOptions p = Some opts" "options_wanted p opts \<le> 40"
  shows "n = total_header_length p opts + length (Payload p)" "\<exists>ck. take n (drop 12 out) = frame_of now p opts ck"
proof -
  let ?m = "total_header_length p opts + length (Payload p)"
  have fits: "?m + 12 \<le> length buffer"
    using assms(1,2) by (auto simp: Marshal_def Let_def split: if_splits)
  obtain ph where aph: "assemblePseudoHeader (take 12 buffer) (SrcAddr p) (DestAddr p) proto (word_of_nat ?m) = Return (Inr ph)"
    using marshal_pseudo_header [OF assms(1,2)] by blast
  have "length (take 12 buffer) = 12" using fits by simp
  then have lph: "length ph = 12"
    using aph by (auto simp: assemblePseudoHeader_def split: if_splits addr.splits option.splits)
  let ?f = "frame_of now p opts (CalculateChecksum (ph @ frame_of now p opts 0))"
  have "n = ?m" "take n (drop 12 out) = ?f"
    using assms(1) marshal_layout [OF assms(2,3) aph fits] lph length_frame_of [OF assms(3)] by auto
  then show "n = ?m" "\<exists>ck. take n (drop 12 out) = frame_of now p opts ck" by blast+
qed

lemma unmarshal_marshalled:
  assumes "Marshal now p proto buffer = Return (Inr (n, out))"
    and "TcpOptions p = Some opts" "options_wanted p opts \<le> 40"
    and "Payload p \<noteq> [] \<Longrightarrow> answers rp = Some e # rest \<and> length (payloadBytes (Data e)) = 65536"
    and "length (Payload p) \<le> 65536" "40 < fuel"
  shows "\<exists>p' rp'. Unmarshal fuel zero_packet (take n (drop 12 out) @ junk) n src dst rp
      = Some (Return (None, p', rp'))
    \<and> SrcAddr p' = src \<and> DestAddr p' = dst
    \<and> SourcePort p' = SourcePort p \<and> DestinationPort p' = DestinationPort p
    \<and> SequenceNumber p' = SequenceNumber p \<and> AcknowledgmentNum p' = AcknowledgmentNum p
    \<and> Flags p' = Flags p \<and> WindowSize p' = WindowSize p \<and> UrgentPointer p' = UrgentPointer p
    \<and> Payload p' = Payload p \<and> TcpOptions p' = Some (received_options now p opts)"
proof -
  obtain ck where "take n (drop 12 out) = frame_of now p opts ck" "n = total_header_length p opts + length (Payload p)"
    using marshal_frame [OF assms(1-3)] by blast
  then show ?thesis
    using unmarshal_frame [OF assms(3,6,4,5), where now = now and junk = junk and src = src and dst = dst and ck = ck]
    by (auto simp: rcv_base_def)
qed

section \<open>Properties\<close>

text \<open>
  C4. What \<open>Marshal\<close> writes, \<open>Unmarshal\<close> reads: for a packet whose options fit in the 40 bytes of
  the option field, the receiver (whatever lies behind the frame in its buffer) gets back the
  ports, sequence and acknowledgement numbers, flags, window, urgent pointer and payload, and
  exactly the options that were sent, the peer's SACK blocks as incoming ones.
\<close>

theorem marshal_unmarshal_roundtrip:
  assumes "Marshal now p proto buffer = Return (Inr (n, out))"
    and "TcpOptions p = Some opts" "options_wanted p opts \<le> 40"
    and "Payload p \<noteq> [] \<Longrightarrow> answers rp = Some e # rest \<and> length (payloadBytes (Data e)) = 65536"
    and "length (Payload p) \<le> 65536" "40 < fuel"
  shows "\<exists>p' rp'. Unmarshal fuel zero_packet (take n (drop 12 out) @ junk) n src dst rp
      = Some (Return (None, p', rp'))
    \<and> SrcAddr p' = src \<and> DestAddr p' = dst
    \<and> SourcePort p' = SourcePort p \<and> DestinationPort p' = DestinationPort p
    \<and> SequenceNumber p' = SequenceNumber p \<and> AcknowledgmentNum p' = AcknowledgmentNum p
    \<and> Flags p' = Flags p \<and> WindowSize p' = WindowSize p \<and> UrgentPointer p' = UrgentPointer p
    \<and> Payload p' = Payload p \<and> TcpOptions p' = Some (received_options now p opts)"
  by (rule unmarshal_marshalled [OF assms])

definition sample_element :: element where
  "sample_element = \<lparr> elem_id = 3, Data = \<lparr> payloadBytes = replicate 65536 0, payloadLength = 0 \<rparr> \<rparr>"

theorem marshal_unmarshal_roundtrip_witness:
  "\<exists>out p' rp'. Marshal 0 sample_packet 6 (replicate 48 0xaa) = Return (Inr (30, out))
    \<and> Unmarshal 41 zero_packet (take 30 (drop 12 out) @ [1, 2]) 30 NilAddr NilAddr
        \<lparr> answers = [Some sample_element], returned = [] \<rparr> = Some (Return (None, p', rp'))
    \<and> Payload p' = [104, 105] \<and> SequenceNumber p' = 7"
proof -
  obtain out where out: "Marshal 0 sample_packet 6 (replicate 48 0xaa) = Return (Inr (30, out))"
    using marshal_layout [of sample_packet "zero_options\<lparr> mss := 1400, permitSack := True \<rparr>"
        "replicate 48 0xaa" 6 _ 0]
    by (simp add: sample_packet_def zero_packet_def options_wanted_def zero_options_def has_ws_def
        has_mss_def has_permit_def has_sack_def total_header_length_def options_length_def
        options_padding_def assemblePseudoHeader_ok To4_def)
  show ?thesis
    using marshal_unmarshal_roundtrip [OF out, where opts = "zero_options\<lparr> mss := 1400, permitSack := True \<rparr>"
        and rp = "\<lparr> answers = [Some sample_element], returned = [] \<rparr>" and e = sample_element and rest = "[]"
        and fuel = 41 and junk = "[1, 2]" and src = NilAddr and dst = NilAddr] out
    by (auto simp: sample_packet_def zero_packet_def sample_element_def options_wanted_def zero_options_def
        has_ws_def has_mss_def has_permit_def has_sack_def)
qed

text \<open>
  One more unit of fuel than the option field has bytes decides the option loop: if it ends
  at all, it ends then, with the same result. Fuel 41 therefore decides every packet, since the
  field has at most 40 bytes.
\<close>

theorem option_loop_fuel_decides:
  "n \<le> 40 \<Longrightarrow> parse_options 41 opt n 0 opts = r \<Longrightarrow>
    (r = None \<and> (\<forall>fuel. parse_options fuel opt n 0 opts = None))
    \<or> (r \<noteq> None \<and> (\<forall>fuel>n. parse_options fuel opt n 0 opts = r))"
proof (cases r)
  case None
  assume a: "n \<le> 40" "parse_options 41 opt n 0 opts = r"
  have "parse_options fuel opt n 0 opts = None" for fuel
    using parse_options_enough_fuel [of fuel opt n 0 opts _ 41] a None by (cases "parse_options fuel opt n 0 opts") auto
  then show ?thesis using None by simp
next
  case (Some x)
  assume "n \<le> 40" "parse_options 41 opt n 0 opts = r"
  then show ?thesis using parse_options_enough_fuel [of 41 opt n 0 opts x] Some by simp
qed

theorem option_loop_fuel_decides_witness:
  "parse_options 1000 [2, 4, 5, 120] 4 0 zero_options = Some (Return (zero_options\<lparr> mss := 1400 \<rparr>))"
proof -
  have "parses_to [2, 4, 5, 120] 4 0 zero_options (zero_options\<lparr> mss := 1400 \<rparr>)"
    by (rule parses_to_step [of _ _ _ _ 4 "zero_options\<lparr> mss := 1400 \<rparr>"])
      (simp_all add: parse_option_def slice_def Uint16_def parses_to_end)
  then have "parse_options 41 [2, 4, 5, 120] 4 0 zero_options = Some (Return (zero_options\<lparr> mss := 1400 \<rparr>))"
    by (simp add: parses_to_def)
  then show ?thesis using option_loop_fuel_decides [of 4 "[2, 4, 5, 120]" zero_options] by simp
qed

text \<open>
  A segment whose option field starts with an option of kind 2 or more and length byte 0
  makes \<open>Unmarshal\<close> loop for ever, whatever follows: no amount of fuel gives a result.
\<close>

theorem unmarshal_zero_length_option_loops:
  assumes "22 \<le> n" "n \<le> length buf" "5 < drop_bit 4 (buf ! 12)"
    and "unat (drop_bit 4 (buf ! 12) * 4) \<le> length buf"
    and "buf ! 20 \<noteq> 0" "buf ! 20 \<noteq> 1" "buf ! 21 = 0"
  shows "Unmarshal fuel p buf n src dst rp = None"
proof -
  define d where "d = drop_bit 4 (buf ! 12)"
  have d: "unat d \<le> 15" using assms(1) by (simp add: d_def unat_high_nibble)
  have g: "5 < unat d" using assms(3) by (simp add: d_def word_less_nat_alt)
  have m: "unat (d * 4) = unat d * 4" using d by (simp add: unat_word_ariths)
  have "parse_options fuel (drop 20 buf) (unat d * 4 - 20) 0 opts = None" for opts
    by (rule zero_length_option_stuck) (use assms g in simp_all)
  then show ?thesis
    using assms g by (simp add: Unmarshal_def Let_def m flip: d_def)
qed

theorem unmarshal_zero_length_option_loops_witness:
  "\<forall>fuel. Unmarshal fuel zero_packet (replicate 12 0 @ [0x60] @ replicate 7 0 @ [30, 0, 0, 0]) 24 NilAddr NilAddr
     \<lparr> answers = [], returned = [] \<rparr> = None"
  by (intro allI, rule unmarshal_zero_length_option_loops) (simp_all add: nth_append)

text \<open>
  C23. \<open>Unmarshal\<close> never panics on a receive buffer of at least 67 bytes (the callers pass slices
  of a 65536 byte buffer), whatever the segment says about its own header and options.
\<close>

theorem unmarshal_never_panics:
  assumes "67 \<le> length buf" "n \<le> length buf"
  shows "Unmarshal fuel p buf n src dst rp \<noteq> Some Panic"
proof -
  define d where "d = unat (drop_bit 4 (buf ! 12) * 4)"
  have "d \<le> 60"
    using unat_high_nibble [of "buf ! 12"] by (simp add: d_def unat_word_ariths)
  then have "d - 20 + 7 \<le> length (drop 20 buf)" using assms by simp
  then have "parse_options fuel (drop 20 buf) (d - 20) 0 opts \<noteq> Some Panic"
    "parse_options fuel (drop 20 buf) (d - 20) 0 opts \<noteq> Some Fatal" for opts
    using parse_options_no_panic [of "d - 20" "drop 20 buf" fuel 0 opts] by blast+
  then show ?thesis
    using assms \<open>d \<le> 60\<close>
    by (auto simp: Unmarshal_def Let_def simp flip: d_def split: if_splits option.splits prod.splits go.splits)
qed

theorem unmarshal_never_panics_witness:
  "Unmarshal 41 zero_packet (replicate 67 0xff) 67 NilAddr NilAddr \<lparr> answers = [], returned = [] \<rparr> \<noteq> Some Panic"
  by (rule unmarshal_never_panics) simp_all

text \<open>
  When the SACK blocks (with the timestamp) do not fit in the option field, the frame that
  \<open>Marshal\<close> emits announces all of them in the option's length byte, carries the first four,
  drops the timestamp, and ends its 40 option bytes with 6 bytes the buffer held before: old
  data of another packet leaves as options.
\<close>

theorem sack_overflow_sends_old_bytes:
  assumes "Marshal now p proto buffer = Return (Inr (n, out))" "TcpOptions p = Some opts"
    and "has_sack p opts" "options_wanted p opts > 40"
  shows "slice (drop 12 out) 20 60 = [5, word_of_nat (2 + 8 * length (blocks (outSACKOption opts)))]
      @ enc_blocks (take 4 (blocks (outSACKOption opts))) @ slice buffer 66 72"
proof -
  obtain ck where f: "n = 60 + length (Payload p)" "take n (drop 12 out) = overflow_frame p opts buffer ck"
    using marshal_overflow_layout [OF assms] by blast
  have l4: "4 \<le> length (blocks (outSACKOption opts))"
    using assms(3,4) by (auto simp: options_wanted_def has_ws_def has_mss_def has_permit_def has_sack_def
        split: if_splits)
  have "60 + length (Payload p) + 12 \<le> length buffer"
    using assms by (auto simp: Marshal_def Let_def total_header_length_def options_length_def
        options_padding_def split: if_splits)
  then have s: "length (slice buffer 66 72) = 6" by simp
  have "slice (drop 12 out) 20 60 = slice (take n (drop 12 out)) 20 60"
    using f(1) by (simp add: slice_def drop_take)
  also have "\<dots> = [5, word_of_nat (2 + 8 * length (blocks (outSACKOption opts)))]
      @ enc_blocks (take 4 (blocks (outSACKOption opts))) @ slice buffer 66 72" (is "_ = ?mid")
  proof -
    have "overflow_frame p opts buffer ck = enc_header p 60 ck @ ?mid @ Payload p"
      by (simp add: overflow_frame_def mult.commute)
    moreover have "length ?mid = 40" using l4 s by simp
    ultimately show ?thesis unfolding f(2) by (simp only: slice_append_exact length_enc_header)
  qed
  finally show ?thesis .
qed

definition sample_blocks :: "sackblock list" where
  "sample_blocks = [\<lparr> leftEdge = 10, rightEdge = 20 \<rparr>, \<lparr> leftEdge = 30, rightEdge = 40 \<rparr>,
     \<lparr> leftEdge = 50, rightEdge = 60 \<rparr>, \<lparr> leftEdge = 70, rightEdge = 80 \<rparr>]"

definition sample_ack :: packet where
  "sample_ack = zero_packet\<lparr> SrcAddr := IPAddr [10, 0, 0, 1], DestAddr := IPAddr [10, 0, 0, 2],
     Flags := ACKFlag, IsOpenConnection := True,
     TcpOptions := Some (zero_options\<lparr> SackEnabled := True, timestampEnabled := True,
       outSACKOption := \<lparr> blocks = sample_blocks \<rparr> \<rparr>) \<rparr>"

lemma sample_ack_marshals:
  "\<exists>out. Marshal 0 sample_ack 6 (replicate 100 7) = Return (Inr (60, out))"
  by (simp add: Marshal_def sample_ack_def zero_packet_def total_header_length_def options_length_def
      options_padding_def options_wanted_def has_ws_def has_mss_def has_permit_def has_sack_def
      sample_blocks_def assemblePseudoHeader_ok To4_def Let_def)

theorem sack_overflow_sends_old_bytes_witness:
  "\<exists>out. Marshal 0 sample_ack 6 (replicate 100 7) = Return (Inr (60, out))
    \<and> slice (drop 12 out) 20 60 = [5, 34] @ enc_blocks sample_blocks @ [7, 7, 7, 7, 7, 7]"
proof -
  obtain out where out: "Marshal 0 sample_ack 6 (replicate 100 7) = Return (Inr (60, out))"
    using sample_ack_marshals by blast
  have "slice (replicate 100 7) 66 72 = replicate 6 (7::u8)" by (simp add: slice_def)
  then show ?thesis
    using sack_overflow_sends_old_bytes [OF out, of "zero_options\<lparr> SackEnabled := True, timestampEnabled := True,
       outSACKOption := \<lparr> blocks = sample_blocks \<rparr> \<rparr>"] out
    by (simp add: sample_ack_def zero_packet_def options_wanted_def has_ws_def has_mss_def has_permit_def
        has_sack_def sample_blocks_def zero_options_def eval_nat_numeral)
qed

text \<open>
  C33. Such a frame can stop its receiver for good: with four SACK blocks and the timestamp (on by
  default), if the old bytes left in the sender's buffer are a value of 2 or more followed by 0,
  the receiver's \<open>Unmarshal\<close> of that frame never ends.
\<close>

theorem sack_overflow_hangs_receiver:
  assumes "Marshal now p proto buffer = Return (Inr (n, out))" "TcpOptions p = Some opts"
    and "has_sack p opts" "options_wanted p opts > 40"
    and "length (blocks (outSACKOption opts)) = 4"
    and "buffer ! 66 \<noteq> 0" "buffer ! 66 \<noteq> 1" "buffer ! 67 = 0"
  shows "Unmarshal fuel q (take n (drop 12 out) @ junk) n src dst rp = None"
proof -
  define bs where "bs = blocks (outSACKOption opts)"
  obtain ck where f: "n = 60 + length (Payload p)" "take n (drop 12 out) = overflow_frame p opts buffer ck"
    using marshal_overflow_layout [OF assms(1-4)] by blast
  have "72 + length (Payload p) \<le> length buffer"
    using assms(1,2,4) by (auto simp: Marshal_def Let_def total_header_length_def options_length_def
        options_padding_def split: if_splits)
  then obtain y6 where old: "slice buffer 66 72 = [buffer ! 66, 0] @ y6" "length y6 = 4"
    using assms(8) by (intro that [of "slice buffer 68 72"])
      (simp_all add: slice_def take_Suc_conv_app_nth numeral_eq_Suc Cons_nth_drop_Suc [symmetric])
  let ?opt = "[5, 34] @ enc_blocks bs @ [buffer ! 66, 0] @ y6 @ Payload p @ junk"
  have l: "length bs = 4" using assms(5) by (simp add: bs_def)
  have sack: "parse_sack ?opt 2 34 = Return bs"
    using parse_sack_blocks [of "[5, 34]" bs "[buffer ! 66, 0] @ y6 @ Payload p @ junk"] l
    by (simp add: numeral_2_eq_2)
  have first: "parse_option ?opt 40 0 o1 = Return (34, o1\<lparr> inSACKOption := \<lparr> blocks = blocks (inSACKOption o1) @ bs \<rparr> \<rparr>)" for o1
    using sack [unfolded numeral_2_eq_2] by (simp add: parse_option_def)
  have stuck: "parse_options fu ?opt 40 34 o1 = None" for fu o1
    by (rule zero_length_option_stuck) (use assms(6,7) l in \<open>simp_all add: nth_append\<close>)
  have loop: "parse_options fuel ?opt 40 0 o1 = None" for o1
    using first [of o1] stuck by (cases fuel) simp_all
  have frame: "take n (drop 12 out) @ junk = enc_header p 60 ck @ ?opt"
    using l by (simp add: f(2) overflow_frame_def old bs_def)
  have do: "unat (drop_bit 4 ((enc_header p 60 ck @ ?opt) ! 12) * 4) = 60"
    using data_offset_bits [of 15] by (simp add: enc_header_def be16_def be32_def)
  have "length ?opt \<ge> 40" using l old by simp
  then show ?thesis
    unfolding frame using loop do by (simp add: Unmarshal_def Let_def f(1))
qed

theorem sack_overflow_hangs_receiver_witness:
  "\<exists>out. Marshal 0 sample_ack 6 (replicate 67 7 @ [0, 0, 0, 0, 0]) = Return (Inr (60, out))
    \<and> (\<forall>fuel. Unmarshal fuel zero_packet (take 60 (drop 12 out) @ []) 60 NilAddr NilAddr
         \<lparr> answers = [], returned = [] \<rparr> = None)"
proof -
  obtain out where out: "Marshal 0 sample_ack 6 (replicate 67 7 @ [0, 0, 0, 0, 0]) = Return (Inr (60, out))"
    by (simp add: Marshal_def sample_ack_def zero_packet_def total_header_length_def options_length_def
      options_padding_def options_wanted_def has_ws_def has_mss_def has_permit_def has_sack_def
      sample_blocks_def assemblePseudoHeader_ok To4_def Let_def)
  show ?thesis
    using sack_overflow_hangs_receiver [OF out, of "zero_options\<lparr> SackEnabled := True, timestampEnabled := True,
       outSACKOption := \<lparr> blocks = sample_blocks \<rparr> \<rparr>" _ zero_packet "[]"] out
    by (simp add: sample_ack_def zero_packet_def options_wanted_def has_ws_def has_mss_def has_permit_def
        has_sack_def sample_blocks_def nth_append)
qed

end
