(* ===== verification/Sack.thy ===== *)
theory Sack
  imports Seq_Arith Conn_Types
begin

text \<open>
  The receiver's selective acknowledgement in \<open>lib/connection.go\<close>: \<open>updateACKAndSACK\<close>,
  \<open>removeSACKBlock\<close> and \<open>trimOutSackOption\<close>. The lemmas measure sequence numbers by their
  distance from the last acknowledged one and describe a list of blocks by the set of offsets
  it covers; the order of the list matters only to when the acknowledgement advances.
\<close>

section \<open>The code\<close>

definition removeSACKBlock :: "sackblock list \<Rightarrow> nat \<Rightarrow> sackblock list" where
  "removeSACKBlock bs index =
     (if index + 1 = length bs then take (length bs - 1) bs
      else take (length bs - 1) (copy_at index (drop (index + 1) bs) bs))"

function sack_scan :: "u32 \<Rightarrow> u32 \<Rightarrow> nat \<Rightarrow> sackblock list \<Rightarrow> sackblock list option" where
  \<comment> \<open>the loop over the blocks from \<open>i\<close> on: the list at the first case that applies\<close>
  "sack_scan newLeftEdge newRightEdge i bs =
     (if i < length bs then
        let block = bs ! i in
        if isGreaterOrEqual newLeftEdge (leftEdge block) \<and> isLessOrEqual newRightEdge (rightEdge block)
        then Some bs
        else if i + 1 < length bs \<and> newLeftEdge = rightEdge block \<and> newRightEdge = leftEdge (bs ! (i + 1))
        then Some (removeSACKBlock (bs[i := block\<lparr> rightEdge := rightEdge (bs ! (i + 1)) \<rparr>]) (i + 1))
        else if newLeftEdge = rightEdge block
        then Some (bs[i := block\<lparr> rightEdge := newRightEdge \<rparr>])
        else if newRightEdge = leftEdge block
        then Some (bs[i := block\<lparr> leftEdge := newLeftEdge \<rparr>])
        else if i + 1 < length bs \<and> isGreater newLeftEdge (rightEdge block)
            \<and> isLess newRightEdge (leftEdge (bs ! (i + 1)))
        then Some (take (i + 1) bs @ [\<lparr> leftEdge = newLeftEdge, rightEdge = newRightEdge \<rparr>]
                   @ drop (i + 1) bs)
        else sack_scan newLeftEdge newRightEdge (i + 1) bs
      else None)"
  by pat_completeness auto
termination by (relation "measure (\<lambda>(l, r, i, bs). length bs - i)") auto

declare sack_scan.simps [simp del]

definition updateACKAndSACK :: "connection \<Rightarrow> packet \<Rightarrow> u32 \<times> sackblock list" where
  "updateACKAndSACK c packet =
     (let lastACKNum = lastAckNumber c;
          sackBlocks = blocks (outSACKOption (tcpOptions c));
          receivedSEQ = SequenceNumber packet;
          payloadLength = word_of_nat (length (Payload packet)) :: u32
      in if isLess receivedSEQ lastACKNum then (lastACKNum, sackBlocks)
         else if receivedSEQ = lastACKNum
         then let lastACKNum' = SeqIncrementBy lastACKNum payloadLength
              in if length sackBlocks > 0 \<and> lastACKNum' = leftEdge (sackBlocks ! 0)
                 then (rightEdge (sackBlocks ! 0), removeSACKBlock sackBlocks 0)
                 else (lastACKNum', sackBlocks)
         else let newLeftEdge = receivedSEQ;
                  newRightEdge = SeqIncrementBy receivedSEQ payloadLength
              in (lastACKNum,
                  case sack_scan newLeftEdge newRightEdge 0 sackBlocks of
                    Some bs \<Rightarrow> bs
                  | None \<Rightarrow> sackBlocks @ [\<lparr> leftEdge = newLeftEdge, rightEdge = newRightEdge \<rparr>]))"

definition trimOutSackOption :: "u32 \<Rightarrow> connection \<Rightarrow> connection" where
  "trimOutSackOption newlastAckNum c =
     c\<lparr> tcpOptions := (tcpOptions c)\<lparr> outSACKOption :=
          \<lparr> blocks = filter (\<lambda>block. leftEdge block > newlastAckNum)
                      (blocks (outSACKOption (tcpOptions c))) \<rparr> \<rparr> \<rparr>"

section \<open>What the blocks cover\<close>

lemma removeSACKBlock_eq:
  "index < length bs \<Longrightarrow> removeSACKBlock bs index = take index bs @ drop (Suc index) bs"
  by (auto simp: removeSACKBlock_def copy_at_def min_def not_le Suc_leI intro: arg_cong2 [where f = take])

text \<open>Offsets from \<open>base\<close>, the window they must lie in, and the offsets a list of blocks covers.\<close>

definition blk :: "u32 \<Rightarrow> sackblock \<Rightarrow> nat set" where
  "blk base b = {seq_dist (leftEdge b) base ..< seq_dist (rightEdge b) base}"

definition cov :: "u32 \<Rightarrow> sackblock list \<Rightarrow> nat set" where
  "cov base bs = (\<Union>b \<in> set bs. blk base b)"

definition in_window :: "u32 \<Rightarrow> sackblock \<Rightarrow> bool" where
  "in_window base b \<longleftrightarrow>
     seq_dist (leftEdge b) base < seq_dist (rightEdge b) base \<and> seq_dist (rightEdge b) base < 2147483648"

lemma cov_simps [simp]:
  "cov base [] = {}" "cov base (b # bs) = blk base b \<union> cov base bs"
  "cov base (as @ bs) = cov base as \<union> cov base bs"
  by (auto simp: cov_def)

lemma split_at_nth:
  assumes "i < length bs"
  obtains as cs where "bs = as @ bs ! i # cs" "length as = i"
  using id_take_nth_drop [OF assms] assms that by (metis length_take less_imp_le min.absorb2)

definition scan_act :: "u32 \<Rightarrow> u32 \<Rightarrow> sackblock list \<Rightarrow> sackblock \<Rightarrow> sackblock list \<Rightarrow> sackblock list \<Rightarrow> bool" where
  \<comment> \<open>what the loop does when a case applies at block \<open>b\<close>\<close>
  "scan_act l r as b cs bs' \<longleftrightarrow>
     isGreaterOrEqual l (leftEdge b) \<and> isLessOrEqual r (rightEdge b) \<and> bs' = as @ b # cs
     \<or> (\<exists>c cs'. cs = c # cs' \<and> l = rightEdge b \<and> r = leftEdge c
          \<and> bs' = as @ b\<lparr> rightEdge := rightEdge c \<rparr> # cs')
     \<or> l = rightEdge b \<and> (cs = [] \<or> r \<noteq> leftEdge (hd cs)) \<and> bs' = as @ b\<lparr> rightEdge := r \<rparr> # cs
     \<or> r = leftEdge b \<and> bs' = as @ b\<lparr> leftEdge := l \<rparr> # cs
     \<or> cs \<noteq> [] \<and> isGreater l (rightEdge b) \<and> isLess r (leftEdge (hd cs))
          \<and> bs' = as @ b # \<lparr> leftEdge = l, rightEdge = r \<rparr> # cs"

lemma scan_here:
  assumes "length as = i" "sack_scan l r i (as @ b # cs) = Some bs'"
  shows "scan_act l r as b cs bs' \<or> l \<noteq> rightEdge b \<and> sack_scan l r (i + 1) (as @ b # cs) = Some bs'"
proof -
  have nth: "(as @ b # cs) ! i = b" using assms(1) by auto
  have upd: "(as @ b # cs)[i := x] = as @ x # cs" for x using assms(1) by auto
  have ins: "take (Suc i) (as @ b # cs) = as @ [b]" "drop (Suc i) (as @ b # cs) = cs" using assms(1) by auto
  show ?thesis
  proof (cases cs)
    case Nil
    then show ?thesis using assms
      by (subst (asm) sack_scan.simps) (auto simp: Let_def nth upd ins scan_act_def split: if_splits)
  next
    case (Cons c cs')
    have nth': "(as @ b # c # cs') ! Suc i = c" using assms(1) by (auto simp: nth_append)
    have rm: "removeSACKBlock (as @ x # c # cs') (Suc i) = as @ x # cs'" for x
      using assms(1) by (auto simp: removeSACKBlock_eq)
    show ?thesis using assms(2)
      by (subst (asm) sack_scan.simps)
        (use nth upd ins nth' rm assms(1) in \<open>auto simp: Let_def scan_act_def Cons split: if_splits\<close>)
  qed
qed

lemma scan_cases_from:
  assumes "sack_scan l r i bs = Some bs'"
  shows "\<exists>as b cs. bs = as @ b # cs \<and> scan_act l r as b cs bs' \<and> (\<forall>x \<in> set (drop i as). l \<noteq> rightEdge x)"
  using assms
proof (induction "length bs - i" arbitrary: i)
  case 0
  then show ?case by (subst (asm) sack_scan.simps) simp
next
  case (Suc n)
  then have "i < length bs" by simp
  then obtain as b cs where bs: "bs = as @ b # cs" "length as = i"
    using split_at_nth by metis
  have "scan_act l r as b cs bs' \<or> l \<noteq> rightEdge b \<and> sack_scan l r (i + 1) bs = Some bs'"
    using scan_here [OF bs(2)] Suc.prems bs(1) by metis
  then show ?case
  proof
    assume "scan_act l r as b cs bs'"
    then show ?thesis using bs by (intro exI [of _ as] exI [of _ b] exI [of _ cs]) simp
  next
    assume a: "l \<noteq> rightEdge b \<and> sack_scan l r (i + 1) bs = Some bs'"
    have "n = length bs - (i + 1)" using Suc.hyps(2) by simp
    then obtain as' b' cs' where r: "bs = as' @ b' # cs'" "scan_act l r as' b' cs' bs'"
      "\<forall>x \<in> set (drop (i + 1) as'). l \<noteq> rightEdge x"
      using Suc.hyps(1) a by blast
    have "\<forall>x \<in> set (drop i as'). l \<noteq> rightEdge x"
    proof (cases "i < length as'")
      case True
      have "as' ! i = bs ! i" using True by (simp add: r(1) nth_append)
      also have "\<dots> = b" using bs by auto
      finally have "drop i as' = b # drop (i + 1) as'" using Cons_nth_drop_Suc [OF True] by simp
      then show ?thesis using r(3) a by simp
    qed simp
    then show ?thesis using r by blast
  qed
qed

lemmas scan_cases = scan_cases_from [where i = 0, simplified]

lemma scan_act_covers:
  assumes "\<forall>b \<in> set (as @ b # cs). in_window base b"
    and w: "seq_dist l base < seq_dist r base" "seq_dist r base < 2147483648"
    and "scan_act l r as b cs bs'"
  shows "cov base bs' = cov base (as @ b # cs) \<union> {seq_dist l base ..< seq_dist r base}"
    and "\<forall>b \<in> set bs'. in_window base b"
proof -
  have b: "in_window base b" using assms(1) by simp
  have c: "cs \<noteq> [] \<Longrightarrow> in_window base (hd cs)" using assms(1) by simp
  have dl: "seq_dist l base < 2147483648" using w by simp
  have bb: "seq_dist (leftEdge b) base < 2147483648" "seq_dist (rightEdge b) base < 2147483648"
    using b by (simp_all add: in_window_def)
  show "cov base bs' = cov base (as @ b # cs) \<union> {seq_dist l base ..< seq_dist r base}"
    using assms(4) b c w
    by (auto simp: scan_act_def window_order [OF dl bb(1)] window_order [OF w(2) bb(2)]
        in_window_def blk_def)
  show "\<forall>b \<in> set bs'. in_window base b"
    using assms(1,4) w by (auto simp: scan_act_def in_window_def)
qed

section \<open>Ordered lists of blocks\<close>

fun sorted_blocks :: "u32 \<Rightarrow> nat \<Rightarrow> sackblock list \<Rightarrow> bool" where
  \<comment> \<open>non-empty blocks in the window after offset \<open>k\<close>, in order, with gaps between them\<close>
  "sorted_blocks base k [] = True"
| "sorted_blocks base k (b # bs) =
     (k < seq_dist (leftEdge b) base \<and> in_window base b
      \<and> sorted_blocks base (seq_dist (rightEdge b) base) bs)"

fun end_of :: "u32 \<Rightarrow> nat \<Rightarrow> sackblock list \<Rightarrow> nat" where
  "end_of base k [] = k"
| "end_of base k (b # bs) = end_of base (seq_dist (rightEdge b) base) bs"

lemma sorted_blocks_append [simp]:
  "sorted_blocks base k (as @ bs) \<longleftrightarrow> sorted_blocks base k as \<and> sorted_blocks base (end_of base k as) bs"
  by (induction as arbitrary: k) auto

lemma sorted_in_window: "sorted_blocks base k bs \<Longrightarrow> \<forall>b \<in> set bs. in_window base b"
  by (induction bs arbitrary: k) auto

lemma sorted_blocks_later: "sorted_blocks base k bs \<Longrightarrow> k' \<le> k \<Longrightarrow> sorted_blocks base k' bs"
  by (cases bs) auto

lemma sorted_blocks_hd: "sorted_blocks base k' bs \<Longrightarrow> bs \<noteq> [] \<Longrightarrow> k < seq_dist (leftEdge (hd bs)) base
   \<Longrightarrow> sorted_blocks base k bs"
  by (cases bs) auto

lemma sorted_not_covered: "sorted_blocks base k bs \<Longrightarrow> j \<le> k \<Longrightarrow> j \<notin> cov base bs"
proof (induction bs arbitrary: k)
  case (Cons b bs)
  then show ?case
    using Cons.IH [of "seq_dist (rightEdge b) base"] by (auto simp: blk_def in_window_def)
qed simp

definition aligned :: "u32 \<Rightarrow> nat \<Rightarrow> nat \<Rightarrow> sackblock list \<Rightarrow> bool" where
  \<comment> \<open>the segment of offsets from \<open>x\<close> to \<open>y\<close> lies within a block or does not overlap it\<close>
  "aligned base x y bs \<longleftrightarrow> (\<forall>b \<in> set bs.
     seq_dist (leftEdge b) base \<le> x \<and> y \<le> seq_dist (rightEdge b) base
     \<or> y \<le> seq_dist (leftEdge b) base \<or> seq_dist (rightEdge b) base \<le> x)"

lemma scan_none:
  assumes "sack_scan l r i (as @ b # cs) = None" "i \<le> length as"
  shows "\<not> (isGreaterOrEqual l (leftEdge b) \<and> isLessOrEqual r (rightEdge b))" "l \<noteq> rightEdge b"
    "r \<noteq> leftEdge b" "\<not> (cs \<noteq> [] \<and> isGreater l (rightEdge b) \<and> isLess r (leftEdge (hd cs)))"
proof -
  have at: "sack_scan l r (length as) (as @ b # cs) = None"
    using assms
  proof (induction "length as - i" arbitrary: i)
    case (Suc n)
    then have "sack_scan l r (i + 1) (as @ b # cs) = None"
      by (subst (asm) (2) sack_scan.simps) (auto simp: Let_def split: if_splits)
    then show ?case using Suc.hyps(1) [of "i + 1"] Suc.hyps(2) by simp
  qed simp
  show "\<not> (isGreaterOrEqual l (leftEdge b) \<and> isLessOrEqual r (rightEdge b))" "l \<noteq> rightEdge b"
    "r \<noteq> leftEdge b" "\<not> (cs \<noteq> [] \<and> isGreater l (rightEdge b) \<and> isLess r (leftEdge (hd cs)))"
    using at by (subst (asm) sack_scan.simps; cases cs; auto simp: Let_def nth_append split: if_splits)+
qed

lemma scan_none_after_last:
  assumes "sorted_blocks base k bs" "aligned base (seq_dist l base) (seq_dist r base) bs"
    and w: "seq_dist l base < seq_dist r base" "seq_dist r base < 2147483648"
    and "sack_scan l r 0 (as @ bs) = None"
    and "bs = [] \<or> \<not> seq_dist r base < seq_dist (leftEdge (hd bs)) base"
    and "k < seq_dist l base"
  shows "end_of base k bs < seq_dist l base"
  using assms(1,2,5-7)
proof (induction bs arbitrary: as k)
  case (Cons b bs)
  have dl: "seq_dist l base < 2147483648" using w by simp
  have bw: "in_window base b" using Cons.prems(1) by simp
  then have bb: "seq_dist (leftEdge b) base < 2147483648" "seq_dist (rightEdge b) base < 2147483648"
    by (simp_all add: in_window_def)
  note n = scan_none [OF Cons.prems(3)]
  have "l \<noteq> rightEdge b" "r \<noteq> leftEdge b" using n by simp_all
  then have ne: "seq_dist l base \<noteq> seq_dist (rightEdge b) base" "seq_dist r base \<noteq> seq_dist (leftEdge b) base"
    by (simp_all add: seq_dist_inj)
  have past: "seq_dist (rightEdge b) base < seq_dist l base"
    using Cons.prems(2,4) n(1) ne
    by (auto simp: aligned_def window_order [OF dl bb(1)] window_order [OF w(2) bb(2)])
  have "bs = [] \<or> \<not> seq_dist r base < seq_dist (leftEdge (hd bs)) base"
  proof (cases bs)
    case (Cons c cs)
    then have "seq_dist (leftEdge c) base < 2147483648"
      using Cons.prems(1) by (simp add: in_window_def)
    then show ?thesis
      using n(4) past Cons by (simp add: window_order [OF dl bb(2)] window_order [OF w(2)])
  qed simp
  then show ?case
    using Cons.IH [of "seq_dist (rightEdge b) base" "as @ [b]"] Cons.prems past
    by (simp add: aligned_def)
qed simp

lemma end_of_not_right:
  "sorted_blocks base k as \<Longrightarrow> end_of base k as = k \<or> (\<exists>x \<in> set as. end_of base k as = seq_dist (rightEdge x) base)"
  by (induction as arbitrary: k) auto

lemma end_of_le:
  assumes "sorted_blocks base k as" "aligned base x y as" "x < y" "k \<le> x"
    and "\<forall>b \<in> set as. seq_dist (rightEdge b) base < y"
  shows "end_of base k as \<le> x"
  using assms
proof (induction as arbitrary: k)
  case (Cons b as)
  have "seq_dist (rightEdge b) base \<le> x"
    using Cons.prems by (auto simp: aligned_def in_window_def)
  then show ?case using Cons by (simp add: aligned_def)
qed simp

lemma end_of_ge: "sorted_blocks base k as \<Longrightarrow> k \<le> end_of base k as"
proof (induction as arbitrary: k)
  case (Cons a as)
  then have "seq_dist (rightEdge a) base \<le> end_of base (seq_dist (rightEdge a) base) as" by simp
  then show ?case using Cons.prems by (simp add: in_window_def)
qed simp

lemma right_le_end: "sorted_blocks base k as \<Longrightarrow> x \<in> set as \<Longrightarrow> seq_dist (rightEdge x) base \<le> end_of base k as"
  by (induction as arbitrary: k) (auto simp: end_of_ge)

lemma sorted_ends: "sorted_blocks base k (as @ b # cs) \<Longrightarrow> x \<in> set as \<Longrightarrow>
   seq_dist (rightEdge x) base < seq_dist (leftEdge b) base"
  using right_le_end [of base k as x] by simp

lemma scan_act_sorted:
  assumes "sorted_blocks base k (as @ b # cs)" "aligned base (seq_dist l base) (seq_dist r base) (as @ b # cs)"
    and w: "seq_dist l base < seq_dist r base" "seq_dist r base < 2147483648" "k < seq_dist l base"
    and "scan_act l r as b cs bs'" "\<forall>x \<in> set as. l \<noteq> rightEdge x"
  shows "sorted_blocks base k bs'"
proof -
  have dl: "seq_dist l base < 2147483648" using w by simp
  have bw: "in_window base b" "end_of base k as < seq_dist (leftEdge b) base" "sorted_blocks base k as"
    "sorted_blocks base (seq_dist (rightEdge b) base) cs"
    using assms(1) by simp_all
  have cw: "cs \<noteq> [] \<Longrightarrow> in_window base (hd cs)" using bw(4) by (cases cs) simp_all
  have r_hd: "seq_dist r base < seq_dist (leftEdge (hd cs)) base"
    if "cs \<noteq> []" "r \<noteq> leftEdge (hd cs)" "l = rightEdge b"
    using that assms(2) bw(4) w seq_dist_inj [of r base "leftEdge (hd cs)"]
    by (cases cs) (auto simp: aligned_def in_window_def)
  have d: "end_of base k as < seq_dist l base" if "r = leftEdge b"
  proof -
    have "end_of base k as \<le> seq_dist l base"
      using bw assms(2) w sorted_ends [OF assms(1)] that
      by (intro end_of_le [where y = "seq_dist r base"]) (auto simp: aligned_def)
    moreover have "end_of base k as \<noteq> seq_dist l base"
      using end_of_not_right [OF bw(3)] assms(7) w(3) by (auto simp: seq_dist_inj)
    ultimately show ?thesis by simp
  qed
  have bb: "seq_dist (leftEdge b) base < seq_dist (rightEdge b) base" "seq_dist (rightEdge b) base < 2147483648"
    using bw(1) by (simp_all add: in_window_def)
  consider "bs' = as @ b # cs"
    | c cs' where "cs = c # cs'" "bs' = as @ b\<lparr> rightEdge := rightEdge c \<rparr> # cs'"
    | "l = rightEdge b" "cs = [] \<or> r \<noteq> leftEdge (hd cs)" "bs' = as @ b\<lparr> rightEdge := r \<rparr> # cs"
    | "r = leftEdge b" "bs' = as @ b\<lparr> leftEdge := l \<rparr> # cs"
    | "cs \<noteq> []" "isGreater l (rightEdge b)" "isLess r (leftEdge (hd cs))"
        "bs' = as @ b # \<lparr> leftEdge = l, rightEdge = r \<rparr> # cs"
    using assms(6) unfolding scan_act_def by blast
  then show ?thesis
  proof cases
    case 1
    then show ?thesis using assms(1) by simp
  next
    case 2
    then show ?thesis using bw bb by (auto simp: in_window_def)
  next
    case 3
    then show ?thesis using bw bb w r_hd by (cases cs) (auto simp: in_window_def)
  next
    case 4
    then show ?thesis using bw bb w d by (auto simp: in_window_def)
  next
    case 5
    have "seq_dist (leftEdge (hd cs)) base < 2147483648" using cw [OF 5(1)] by (simp add: in_window_def)
    then show ?thesis
      using 5 bw bb w by (cases cs) (auto simp: in_window_def window_order [OF dl bb(2)] window_order [OF w(2)])
  qed
qed

section \<open>Properties\<close>

definition out_blocks :: "connection \<Rightarrow> sackblock list" where
  "out_blocks c = blocks (outSACKOption (tcpOptions c))"

lemma segment_right:
  assumes "seq_dist s base + n < 2147483648"
  shows "seq_dist (s + word_of_nat n) base = seq_dist s base + n"
proof -
  have "s + word_of_nat n = base + word_of_nat (seq_dist s base + n)"
    using seq_dist_rep [of base s] by (simp add: add.assoc [symmetric])
  then show ?thesis using assms by (simp del: of_nat_add)
qed

lemma updateACKAndSACK_eq:
  assumes "a = lastAckNumber c" "l = SequenceNumber p" "r = l + word_of_nat (length (Payload p))"
    and "bs = out_blocks c"
  shows "updateACKAndSACK c p =
    (if isLess l a then (a, bs)
     else if l = a then (if bs \<noteq> [] \<and> r = leftEdge (hd bs) then (rightEdge (hd bs), tl bs) else (r, bs))
     else (a, case sack_scan l r 0 bs of Some bs' \<Rightarrow> bs' | None \<Rightarrow> bs @ [\<lparr> leftEdge = l, rightEdge = r \<rparr>]))"
proof -
  have "removeSACKBlock bs 0 = tl bs" if "bs \<noteq> []" using that by (simp add: removeSACKBlock_eq drop_Suc)
  then show ?thesis
    unfolding updateACKAndSACK_def Let_def SeqIncrementBy_eq length_greater_0_conv
      assms [symmetric, unfolded out_blocks_def] by (simp add: hd_conv_nth assms(3) cong: if_cong)
qed

text \<open>
  C12. What the receiver acknowledges, cumulatively or in blocks, is exactly what it received: in
  a window of less than half the sequence space after the last acknowledged number, whatever
  order segments arrive in, a data segment adds its own bytes to the covered ones and nothing
  else, and no covered byte is lost.
\<close>

theorem sack_coverage_exact:
  assumes "\<forall>b \<in> set (out_blocks c). in_window (lastAckNumber c) b"
    and "Payload p \<noteq> []"
    and "seq_dist (SequenceNumber p) (lastAckNumber c) + length (Payload p) < 2147483648"
    and "updateACKAndSACK c p = (ack, bs)"
  shows "{0 ..< seq_dist ack (lastAckNumber c)} \<union> cov (lastAckNumber c) bs
    = cov (lastAckNumber c) (out_blocks c)
      \<union> {seq_dist (SequenceNumber p) (lastAckNumber c)
         ..< seq_dist (SequenceNumber p) (lastAckNumber c) + length (Payload p)}"
proof -
  define a where "a = lastAckNumber c"
  define l where "l = SequenceNumber p"
  define r where "r = l + word_of_nat (length (Payload p))"
  define bs0 where "bs0 = out_blocks c"
  note U = updateACKAndSACK_eq [OF a_def l_def r_def bs0_def]
  have dr: "seq_dist r a = seq_dist l a + length (Payload p)"
    unfolding r_def by (rule segment_right) (use assms(3) in \<open>simp add: a_def l_def\<close>)
  have w: "seq_dist l a < seq_dist r a" "seq_dist r a < 2147483648"
    using assms(2,3) dr by (simp_all add: a_def l_def)
  have iw: "\<forall>b \<in> set bs0. in_window a b" using assms(1) by (simp add: bs0_def a_def)
  have notless: "\<not> isLess l a"
    using window_order(2) [of l a a] w by simp
  have "{0 ..< seq_dist ack a} \<union> cov a bs = cov a bs0 \<union> {seq_dist l a ..< seq_dist r a}"
  proof (cases "l = a")
    case True
    show ?thesis
    proof (cases "bs0 \<noteq> [] \<and> r = leftEdge (hd bs0)")
      case touch: True
      then obtain b bs1 where b: "bs0 = b # bs1" "r = leftEdge b" by (cases bs0) auto
      then have "ack = rightEdge b" "bs = bs1" using assms(4) U notless True by simp_all
      then show ?thesis using iw b True by (auto simp: blk_def in_window_def)
    next
      case False
      then have "ack = r" "bs = bs0" using assms(4) U notless True by (simp_all split: if_splits)
      then show ?thesis using True by auto
    qed
  next
    case False
    then have u: "ack = a" "bs = (case sack_scan l r 0 bs0 of Some bs' \<Rightarrow> bs' | None \<Rightarrow> bs0 @ [\<lparr> leftEdge = l, rightEdge = r \<rparr>])"
      using assms(4) U notless by simp_all
    show ?thesis
    proof (cases "sack_scan l r 0 bs0")
      case None
      then show ?thesis using u by (simp add: blk_def)
    next
      case (Some bs')
      obtain as b cs where bs: "bs0 = as @ b # cs" "scan_act l r as b cs bs'" using scan_cases [OF Some] by blast
      have "cov a bs' = cov a bs0 \<union> {seq_dist l a ..< seq_dist r a}"
        unfolding bs(1) by (rule scan_act_covers(1) [OF _ w bs(2)]) (use iw bs(1) in simp)
      then show ?thesis using u Some by simp
    qed
  qed
  then show ?thesis by (simp add: dr a_def [symmetric] l_def [symmetric] bs0_def [symmetric])
qed

definition sample_conn :: "sackblock list \<Rightarrow> connection" where
  "sample_conn bs = \<lparr> params = \<lparr> key = ''k'', isServer = True, remoteAddr = NilAddr, localAddr = NilAddr,
       remotePort = 1, localPort = 2 \<rparr>,
     config = DefaultConnectionConfig\<lparr> RetransmissionEnabled := True \<rparr>, windowSize = 0,
     initialSeq = 0, initialPeerSeq = 99,
     nextSequenceNumber = 1, lastAckNumber = 100, termStartSeq = 0, termStartPeerSeq = 0,
     readChannel = [], readDeadline = None, terminationCallerState = 0, terminationRespState = 0,
     initClientState = 0, initServerState = 0, connSignalTimer = None, connSignalRetryCount = 0,
     tcpOptions = zero_options\<lparr> mss := 1400, SackEnabled := True, outSACKOption := \<lparr> blocks = bs \<rparr> \<rparr>,
     writeOnHold = False, isOpenConnection = True, isBidirectional = True, keepaliveTimer = None,
     idleTimeout = 25, timeoutCount = 0, keepaliveInterval = 5, isKeepAliveInProgress = False,
     resendPackets = Some [], resendInterval = 200, resendTimer = None, revPacketCache = Some [],
     isClosed = False, connCloseBegins = False, closeSignalClosed = False,
     connSignalFailedClosed = False, isConnSignalFailedAlreadyClosed = False, rxCount = 0, txCount = 0,
     rxOooCount = 0, outputChan = [], sigOutputChan = Some [], newConnSignals = 0, connCloseSignals = 0,
     rpool = \<lparr> answers = [], returned = [] \<rparr> \<rparr>"

definition data_packet :: "u32 \<Rightarrow> bytes \<Rightarrow> packet" where
  "data_packet s d = zero_packet\<lparr> SequenceNumber := s, Payload := d, Flags := ACKFlag \<rparr>"

lemma sample_simps [simp]:
  "lastAckNumber (sample_conn bs) = 100" "out_blocks (sample_conn bs) = bs"
  "SequenceNumber (data_packet s d) = s" "Payload (data_packet s d) = d"
  by (simp_all add: sample_conn_def data_packet_def zero_packet_def out_blocks_def)

lemma sample_touch:
  "updateACKAndSACK (sample_conn [\<lparr> leftEdge = 104, rightEdge = 106 \<rparr>]) (data_packet 102 [7, 8])
    = (100, [\<lparr> leftEdge = 102, rightEdge = 106 \<rparr>])"
  by (simp add: updateACKAndSACK_eq [OF refl refl refl refl] sack_scan.simps seq_order_dist seq_dist_def)

theorem sack_coverage_exact_witness:
  "{0 ..< seq_dist 100 100} \<union> cov 100 [\<lparr> leftEdge = 102, rightEdge = 106 \<rparr>]
    = cov 100 [\<lparr> leftEdge = 104, rightEdge = 106 \<rparr>] \<union> {2 ..< 4}"
  using sack_coverage_exact [OF _ _ _ sample_touch]
  by (simp add: in_window_def) (simp add: seq_dist_def)



lemma scan_before_all:
  assumes "\<forall>b \<in> set bs. in_window base b \<and> seq_dist r base < seq_dist (leftEdge b) base"
    and "seq_dist l base < seq_dist r base"
  shows "sack_scan l r i bs = None"
proof (induction "length bs - i" arbitrary: i)
  case 0
  then show ?case by (subst sack_scan.simps) simp
next
  case (Suc n)
  then have i: "i < length bs" by simp
  then have b: "in_window base (bs ! i)" "seq_dist r base < seq_dist (leftEdge (bs ! i)) base"
    using assms(1) by simp_all
  then have w: "seq_dist l base < 2147483648" "seq_dist (leftEdge (bs ! i)) base < 2147483648"
    "seq_dist (rightEdge (bs ! i)) base < 2147483648"
    using assms(2) by (simp_all add: in_window_def)
  have "\<not> isGreaterOrEqual l (leftEdge (bs ! i))" "\<not> isGreater l (rightEdge (bs ! i))"
    using b assms(2) by (simp_all add: window_order(3) [OF w(1,2)] window_order(1) [OF w(1,3)] in_window_def)
  moreover have "l \<noteq> rightEdge (bs ! i)" "r \<noteq> leftEdge (bs ! i)"
    using b assms(2) by (auto simp: in_window_def)
  ultimately show ?case
    using i Suc.hyps(1) [of "i + 1"] Suc.hyps(2) by (subst sack_scan.simps) (simp add: Let_def)
qed

lemma sorted_after_first:
  "sorted_blocks base k (b # bs) \<Longrightarrow> x \<in> set (b # bs) \<Longrightarrow> seq_dist (leftEdge b) base \<le> seq_dist (leftEdge x) base"
proof (induction bs arbitrary: k b)
  case (Cons c bs)
  then have "x \<in> set (c # bs) \<Longrightarrow> seq_dist (leftEdge c) base \<le> seq_dist (leftEdge x) base"
    using Cons.IH [of "seq_dist (rightEdge b) base" c] by simp
  then show ?case using Cons.prems by (auto simp: in_window_def)
qed simp

text \<open>
  A segment wholly before the first block is put at the end of the list instead. When the
  bytes in front of it arrive afterwards, the acknowledgement stops at its left edge although
  the segment itself was received: only the block in position 0 is looked at.
\<close>

theorem sack_block_before_first_misplaced:
  assumes "lastAckNumber c = a" "out_blocks c = b # bs" "sorted_blocks a 0 (b # bs)"
    and "x = seq_dist (SequenceNumber p) a" "0 < x" "Payload p \<noteq> []"
    and "x + length (Payload p) < seq_dist (leftEdge b) a"
    and "updateACKAndSACK c p = (ack, bs')"
    and "lastAckNumber c' = ack" "out_blocks c' = bs'" "SequenceNumber q = a" "length (Payload q) = x"
  shows "bs' = (b # bs) @ [\<lparr> leftEdge = SequenceNumber p,
           rightEdge = SequenceNumber p + word_of_nat (length (Payload p)) \<rparr>]
    \<and> updateACKAndSACK c' q = (SequenceNumber p, bs')"
proof -
  define l where "l = SequenceNumber p"
  define r where "r = l + word_of_nat (length (Payload p))"
  have lb: "seq_dist (leftEdge b) a < 2147483648" using assms(3) by (simp add: in_window_def)
  have dr: "seq_dist r a = x + length (Payload p)"
    unfolding r_def assms(4) l_def by (rule segment_right) (use assms(4,7) lb in simp)
  have before: "\<forall>y \<in> set (b # bs). in_window a y \<and> seq_dist r a < seq_dist (leftEdge y) a"
    using sorted_after_first [OF assms(3)] sorted_in_window [OF assms(3)] assms(7) dr by fastforce
  have "sack_scan l r 0 (b # bs) = None"
    by (rule scan_before_all [OF before]) (use dr assms(4,6) in \<open>simp add: l_def\<close>)
  moreover have "\<not> isLess l a" using window_order(2) [of l a a] assms(4,7) lb by (simp add: l_def)
  moreover have "l \<noteq> a" using assms(4,5) by (auto simp: l_def)
  ultimately have u: "ack = a" "bs' = (b # bs) @ [\<lparr> leftEdge = l, rightEdge = r \<rparr>]"
    using assms(8) updateACKAndSACK_eq [OF assms(1) [symmetric] l_def r_def assms(2) [symmetric]] by simp_all
  have al: "a + word_of_nat x = l" unfolding assms(4) l_def by (rule seq_dist_rep)
  have "l \<noteq> leftEdge b" using assms(4,7) by (auto simp: l_def)
  moreover have "hd bs' = b" by (simp add: u)
  moreover have "\<not> isLess a a" using window_order(2) [of a a a] by simp
  moreover have "updateACKAndSACK c' q = (if isLess a a then (a, bs')
     else if a = a then (if bs' \<noteq> [] \<and> l = leftEdge (hd bs') then (rightEdge (hd bs'), tl bs') else (l, bs'))
     else (a, case sack_scan a l 0 bs' of Some b1 \<Rightarrow> b1 | None \<Rightarrow> bs' @ [\<lparr> leftEdge = a, rightEdge = l \<rparr>]))"
    by (rule updateACKAndSACK_eq) (use assms(9-12) u(1) al in auto)
  ultimately have "updateACKAndSACK c' q = (l, bs')" by simp
  then show ?thesis using u by (simp add: l_def r_def)
qed

lemma sample_before:
  "updateACKAndSACK (sample_conn [\<lparr> leftEdge = 110, rightEdge = 112 \<rparr>]) (data_packet 102 [7, 8])
    = (100, [\<lparr> leftEdge = 110, rightEdge = 112 \<rparr>, \<lparr> leftEdge = 102, rightEdge = 104 \<rparr>])"
  by (simp add: updateACKAndSACK_eq [OF refl refl refl refl] sack_scan.simps seq_order_dist seq_dist_def)

theorem sack_block_before_first_misplaced_witness:
  "updateACKAndSACK (sample_conn [\<lparr> leftEdge = 110, rightEdge = 112 \<rparr>, \<lparr> leftEdge = 102, rightEdge = 104 \<rparr>])
     (data_packet 100 [5, 6])
   = (102, [\<lparr> leftEdge = 110, rightEdge = 112 \<rparr>, \<lparr> leftEdge = 102, rightEdge = 104 \<rparr>])"
  using sack_block_before_first_misplaced [OF _ _ _ _ _ _ _ sample_before, of 100 _ _ 2
      "sample_conn [\<lparr> leftEdge = 110, rightEdge = 112 \<rparr>, \<lparr> leftEdge = 102, rightEdge = 104 \<rparr>]" "data_packet 100 [5, 6]"]
  by (simp add: in_window_def seq_dist_def)

end
