(* ===== verification/Stores.thy ===== *)
theory Stores
  imports Packet_Unmarshal "HOL-Library.AList"
begin

text \<open>
  \<open>ResendPackets\<close> and \<open>PacketGapMap\<close> of \<open>lib/packet.go\<close>: the packets sent and not yet
  acknowledged, and the packets received behind a gap, both keyed by sequence number. The locale
  \<open>seq_store\<close> is the contract the connection uses them by; it is interpreted on both. A
  write to a nil map panics. \<open>now\<close> is the clock.
\<close>

section \<open>The code\<close>

definition NewResendPackets :: "PacketInfo seq_map" where
  "NewResendPackets = Some []"

definition AddSentPacket :: "int \<Rightarrow> packet \<Rightarrow> PacketInfo seq_map \<Rightarrow> PacketInfo seq_map go" where
  "AddSentPacket now packet m =
     (case m of None \<Rightarrow> Panic
      | Some kvs \<Rightarrow> Return (Some (AList.update (SequenceNumber packet)
          \<lparr> LastSentTime = now, ResendCount = 0, pData = packet \<rparr> kvs)))"

definition GetSentPacket :: "u32 \<Rightarrow> PacketInfo seq_map \<Rightarrow> PacketInfo option" where
  "GetSentPacket seqNum m = (case m of None \<Rightarrow> None | Some kvs \<Rightarrow> map_of kvs seqNum)"

definition UpdateSentPacket :: "int \<Rightarrow> u32 \<Rightarrow> PacketInfo seq_map \<Rightarrow> bool \<times> PacketInfo seq_map" where
  \<comment> \<open>whether the packet was found, and the map\<close>
  "UpdateSentPacket now seqNum m =
     (case m of None \<Rightarrow> (False, m)
      | Some kvs \<Rightarrow> (case map_of kvs seqNum of
          None \<Rightarrow> (False, m)
        | Some info \<Rightarrow> (True, Some (AList.update seqNum
            (info\<lparr> LastSentTime := now, ResendCount := ResendCount info + 1 \<rparr>) kvs))))"

definition RemoveSentPacket ::
  "u32 \<Rightarrow> PacketInfo seq_map \<times> ring_pool \<Rightarrow> PacketInfo seq_map \<times> ring_pool" where
  "RemoveSentPacket seqNum = (\<lambda>(m, rp).
     case GetSentPacket seqNum m of
       None \<Rightarrow> (m, rp)
     | Some info \<Rightarrow> (map_option (AList.delete seqNum) m, snd (ReturnChunk (pData info) rp)))"

definition GetPacketKeys :: "'v seq_map \<Rightarrow> u32 list" where
  "GetPacketKeys m = (case m of None \<Rightarrow> [] | Some kvs \<Rightarrow> map fst kvs)"

definition NewReceivedPacket :: "int \<Rightarrow> packet \<Rightarrow> ReceivedPacket" where
  "NewReceivedPacket now packet = \<lparr> ReceivedTime = now, Packet = packet \<rparr>"

definition NewPacketGapMap :: "ReceivedPacket seq_map" where
  "NewPacketGapMap = Some []"

definition AddPacket :: "int \<Rightarrow> packet \<Rightarrow> ReceivedPacket seq_map \<Rightarrow> ReceivedPacket seq_map go" where
  "AddPacket now packet m =
     (case m of None \<Rightarrow> Panic
      | Some kvs \<Rightarrow> Return (Some (AList.update (SequenceNumber packet) (NewReceivedPacket now packet) kvs)))"

definition GetPacket :: "u32 \<Rightarrow> ReceivedPacket seq_map \<Rightarrow> ReceivedPacket option" where
  "GetPacket seqNum m = (case m of None \<Rightarrow> None | Some kvs \<Rightarrow> map_of kvs seqNum)"

definition RemovePacket :: "u32 \<Rightarrow> ReceivedPacket seq_map \<Rightarrow> ReceivedPacket seq_map" where
  "RemovePacket seqNum m =
     (case GetPacket seqNum m of None \<Rightarrow> m | Some _ \<Rightarrow> map_option (AList.delete seqNum) m)"

definition getPacketsInAscendingOrder :: "ReceivedPacket seq_map \<Rightarrow> ReceivedPacket list" where
  "getPacketsInAscendingOrder m =
     (case m of None \<Rightarrow> []
      | Some kvs \<Rightarrow> sort_key (\<lambda>p. SequenceNumber (Packet p)) (map snd kvs))"

section \<open>The contract\<close>

text \<open>
  A store holds at most one entry per sequence number. \<open>lookup\<close> reads it, \<open>add\<close> records a packet
  under its own number (and may panic outside the invariant), \<open>remove\<close> forgets a number and
  leaves the others, \<open>stored_keys\<close> lists the numbers held.
\<close>

locale seq_store =
  fixes lookup :: "'s \<Rightarrow> u32 \<Rightarrow> 'v option"
    and add :: "packet \<Rightarrow> 's \<Rightarrow> 's go"
    and entry :: "packet \<Rightarrow> 'v"
    and remove :: "u32 \<Rightarrow> 's \<Rightarrow> 's"
    and stored_keys :: "'s \<Rightarrow> u32 list"
    and inv :: "'s \<Rightarrow> bool"
  assumes add_stores: "inv s \<Longrightarrow> \<exists>s'. add p s = Return s' \<and> inv s'
        \<and> lookup s' = (lookup s)(SequenceNumber p \<mapsto> entry p)"
    and remove_forgets: "inv s \<Longrightarrow> inv (remove k s) \<and> lookup (remove k s) = (lookup s)(k := None)"
    and keys_dom: "inv s \<Longrightarrow> set (stored_keys s) = dom (lookup s) \<and> distinct (stored_keys s)"
begin

lemma removed_all:
  "inv s \<Longrightarrow> inv (fold remove ks s) \<and> lookup (fold remove ks s) = (lookup s) |` (- set ks)"
proof (induction ks arbitrary: s)
  case (Cons k ks)
  have r: "inv (remove k s)" "lookup (remove k s) = (lookup s)(k := None)"
    using remove_forgets [OF Cons.prems] by simp_all
  show ?case
    using Cons.IH [OF r(1)] r(2) by (auto simp: restrict_map_def fun_eq_iff)
qed (simp add: restrict_map_def)

lemma removed_keys:
  assumes "inv s"
  shows "set (stored_keys (fold remove ks s)) = set (stored_keys s) - set ks"
  using removed_all [OF assms, of ks] keys_dom [OF assms] keys_dom [of "fold remove ks s"] by auto

lemma added_then_found:
  "inv s \<Longrightarrow> add p s = Return s' \<Longrightarrow> lookup s' (SequenceNumber p) = Some (entry p)"
  using add_stores [of s p] by auto

lemma added_others: "inv s \<Longrightarrow> add p s = Return s' \<Longrightarrow> inv s' \<and> (k \<noteq> SequenceNumber p \<longrightarrow> lookup s' k = lookup s k)"
  using add_stores [of s p] by auto

lemma remove_undoes_add:
  assumes "inv s" "add p s = Return s'" "lookup s (SequenceNumber p) = None"
  shows "lookup (remove (SequenceNumber p) s') = lookup s"
proof -
  have "inv s'" "lookup s' = (lookup s)(SequenceNumber p \<mapsto> entry p)"
    using add_stores [OF assms(1), of p] assms(2) by auto
  then show ?thesis using remove_forgets [of s' "SequenceNumber p"] assms(3) by (auto simp: fun_eq_iff)
qed

end

section \<open>Both stores keep it\<close>

definition map_ok :: "'v seq_map \<Rightarrow> bool" where
  "map_ok m \<longleftrightarrow> (\<exists>kvs. m = Some kvs \<and> distinct (map fst kvs))"

lemma GetSentPacket_Some [simp]: "GetSentPacket k (Some kvs) = map_of kvs k"
  by (simp add: GetSentPacket_def)

lemma GetPacket_Some [simp]: "GetPacket k (Some kvs) = map_of kvs k"
  by (simp add: GetPacket_def)

lemma GetPacketKeys_Some [simp]: "GetPacketKeys (Some kvs) = map fst kvs"
  by (simp add: GetPacketKeys_def)

lemma delete_unknown: "map_of kvs k = None \<Longrightarrow> AList.delete k kvs = kvs"
  by (metis delete_id map_of_eq_None_iff)

lemma update_absent: "map_of kvs k = None \<Longrightarrow> AList.update k v kvs = kvs @ [(k, v)]"
  by (induction kvs) (auto split: if_splits)

interpretation resend: seq_store
  "\<lambda>(m, rp) k. GetSentPacket k m"
  "\<lambda>p (m, rp). go_bind (AddSentPacket now p m) (\<lambda>m'. Return (m', rp))"
  "\<lambda>p. \<lparr> LastSentTime = now, ResendCount = 0, pData = p \<rparr>"
  RemoveSentPacket
  "\<lambda>(m, rp). GetPacketKeys m"
  "\<lambda>(m, rp). map_ok m"
  for now
proof unfold_locales
  fix s :: "PacketInfo seq_map \<times> ring_pool" and p
  assume "case s of (m, rp) \<Rightarrow> map_ok m"
  then obtain kvs rp where s: "s = (Some kvs, rp)" "distinct (map fst kvs)"
    by (cases s) (auto simp: map_ok_def)
  show "\<exists>s'. (case s of (m, rp) \<Rightarrow> go_bind (AddSentPacket now p m) (\<lambda>m'. Return (m', rp))) = Return s'
      \<and> (case s' of (m, rp) \<Rightarrow> map_ok m)
      \<and> (case s' of (m, rp) \<Rightarrow> \<lambda>k. GetSentPacket k m) = (case s of (m, rp) \<Rightarrow> \<lambda>k. GetSentPacket k m)
          (SequenceNumber p \<mapsto> \<lparr> LastSentTime = now, ResendCount = 0, pData = p \<rparr>)"
    using s by (auto simp: AddSentPacket_def map_ok_def distinct_update update_conv' fun_eq_iff)
next
  fix s :: "PacketInfo seq_map \<times> ring_pool" and k
  assume "case s of (m, rp) \<Rightarrow> map_ok m"
  then obtain kvs rp where s: "s = (Some kvs, rp)" "distinct (map fst kvs)"
    by (cases s) (auto simp: map_ok_def)
  show "(case RemoveSentPacket k s of (m, rp) \<Rightarrow> map_ok m)
      \<and> (case RemoveSentPacket k s of (m, rp) \<Rightarrow> \<lambda>k. GetSentPacket k m)
        = (case s of (m, rp) \<Rightarrow> \<lambda>k. GetSentPacket k m)(k := None)"
    using s by (auto simp: RemoveSentPacket_def map_ok_def distinct_delete delete_conv' fun_eq_iff
        split: option.split)
next
  fix s :: "PacketInfo seq_map \<times> ring_pool"
  assume "case s of (m, rp) \<Rightarrow> map_ok m"
  then obtain kvs rp where s: "s = (Some kvs, rp)" "distinct (map fst kvs)"
    by (cases s) (auto simp: map_ok_def)
  show "set (case s of (m, rp) \<Rightarrow> GetPacketKeys m) = dom (case s of (m, rp) \<Rightarrow> \<lambda>k. GetSentPacket k m)
      \<and> distinct (case s of (m, rp) \<Rightarrow> GetPacketKeys m)"
    unfolding s using dom_map_of_conv_image_fst [of kvs] s(2) by simp
qed

interpretation gap: seq_store
  "\<lambda>m k. GetPacket k m" "AddPacket now" "NewReceivedPacket now" RemovePacket GetPacketKeys map_ok
  for now
proof unfold_locales
  fix s :: "ReceivedPacket seq_map" and p
  assume "map_ok s"
  then show "\<exists>s'. AddPacket now p s = Return s' \<and> map_ok s'
      \<and> (\<lambda>k. GetPacket k s') = (\<lambda>k. GetPacket k s)(SequenceNumber p \<mapsto> NewReceivedPacket now p)"
    by (auto simp: AddPacket_def map_ok_def distinct_update update_conv' fun_eq_iff)
next
  fix s :: "ReceivedPacket seq_map" and k
  assume "map_ok s"
  then show "map_ok (RemovePacket k s) \<and> (\<lambda>k'. GetPacket k' (RemovePacket k s)) = (\<lambda>k. GetPacket k s)(k := None)"
    by (auto simp: RemovePacket_def map_ok_def distinct_delete delete_conv' fun_eq_iff split: option.split)
next
  fix s :: "ReceivedPacket seq_map"
  assume "map_ok s"
  then obtain kvs where s: "s = Some kvs" "distinct (map fst kvs)" by (auto simp: map_ok_def)
  show "set (GetPacketKeys s) = dom (\<lambda>k. GetPacket k s) \<and> distinct (GetPacketKeys s)"
    unfolding s using dom_map_of_conv_image_fst [of kvs] s(2) by simp
qed

end
