(* ===== verification/Resend.thy ===== *)
theory Resend
  imports Sack Stores
begin

text \<open>
  \<open>NewPcpPacket\<close> and \<open>Duplicate\<close> of \<open>lib/packet.go\<close>, and the sender's side of loss recovery in
  \<open>lib/connection.go\<close>: \<open>updateResendPacketsOnAck\<close> and \<open>resendLostPackets\<close>. A packet shares its
  connection's options by pointer; the model gives it the options of the moment it is made,
  and the code that sends it looks at the connection's again. \<open>go_sort\<close> is Go's \<open>sort.Slice\<close>
  on the lists of at most 12 elements for which it is insertion sort; nothing proved depends
  on the order. The clock read at the start of a pass stands for every read in it.
\<close>

section \<open>The code\<close>

definition NewPcpPacket :: "u32 \<Rightarrow> u32 \<Rightarrow> u8 \<Rightarrow> bytes \<Rightarrow> connection \<Rightarrow> packet option \<times> connection" where
  "NewPcpPacket seqNum ackNum flags data conn =
     (let newPacket = zero_packet\<lparr> SrcAddr := localAddr (params conn), DestAddr := remoteAddr (params conn),
            SourcePort := word_of_int (localPort (params conn)),
            DestinationPort := word_of_int (remotePort (params conn)),
            SequenceNumber := seqNum, AcknowledgmentNum := ackNum, WindowSize := windowSize conn,
            Flags := flags, TcpOptions := Some (tcpOptions conn),
            IsOpenConnection := isOpenConnection conn \<rparr>
      in if length data > 0
         then case CopyToPayload data newPacket (rpool conn) of
             (Some err, p, rp) \<Rightarrow> (None, conn\<lparr> rpool := rp \<rparr>)
           | (None, p, rp) \<Rightarrow> (Some p, conn\<lparr> rpool := rp \<rparr>)
         else (Some newPacket, conn))"

definition Duplicate :: "packet \<Rightarrow> connection \<Rightarrow> (packet option \<times> connection) go" where
  "Duplicate p conn =
     (case chunk p of None \<Rightarrow> Panic
      | Some e \<Rightarrow> Return (NewPcpPacket (SequenceNumber p) (AcknowledgmentNum p) (Flags p)
          (GetSlice (Data e)) conn))"

fun go_insert :: "('a \<Rightarrow> 'a \<Rightarrow> bool) \<Rightarrow> 'a \<Rightarrow> 'a list \<Rightarrow> 'a list" where
  \<comment> \<open>on the reversed sorted prefix\<close>
  "go_insert lt x [] = [x]"
| "go_insert lt x (y # ys) = (if lt x y then y # go_insert lt x ys else x # y # ys)"

definition go_sort :: "('a \<Rightarrow> 'a \<Rightarrow> bool) \<Rightarrow> 'a list \<Rightarrow> 'a list" where
  "go_sort lt xs = rev (foldl (\<lambda>acc x. go_insert lt x acc) [] xs)"

definition in_sack :: "u32 \<Rightarrow> sackblock list \<Rightarrow> bool" where
  "in_sack seqNum bs \<longleftrightarrow>
     list_ex (\<lambda>b. isGreaterOrEqual seqNum (leftEdge b) \<and> isLessOrEqual seqNum (rightEdge b)) bs"

definition updateResendPacketsOnAck :: "packet \<Rightarrow> connection \<Rightarrow> connection" where
  "updateResendPacketsOnAck packet c =
     (let bs = go_sort (\<lambda>x y. isLess (leftEdge x) (leftEdge y)) (blocks (inSACKOption (tcpOptions c)));
          keys = GetPacketKeys (resendPackets c);
          seqToRemove = concat (map (\<lambda>seqNum.
            case GetSentPacket seqNum (resendPackets c) of None \<Rightarrow> []
            | Some _ \<Rightarrow> (if in_sack seqNum bs then [seqNum] else [])
                @ (if isLess seqNum (AcknowledgmentNum packet) then [seqNum] else [])) keys);
          (m, rp) = fold RemoveSentPacket seqToRemove (resendPackets c, rpool c)
      in c\<lparr> tcpOptions := (tcpOptions c)\<lparr> inSACKOption := \<lparr> blocks = bs \<rparr> \<rparr>,
            resendPackets := m, rpool := rp \<rparr>)"

definition resend_one :: "int \<Rightarrow> u32 \<Rightarrow> connection \<times> u32 list \<Rightarrow> (connection \<times> u32 list) go" where
  "resend_one now seqNum = (\<lambda>(c, packetsToRemove).
     case GetSentPacket seqNum (resendPackets c) of
       None \<Rightarrow> Return (c, packetsToRemove)
     | Some info \<Rightarrow>
         if ResendCount info < MaxResendCount (config c)
         then if in_sack seqNum (blocks (inSACKOption (tcpOptions c)))
              then Return (c, packetsToRemove @ [seqNum])
              else if now - LastSentTime info \<ge> resendInterval c
              then go_bind (Duplicate (pData info) c) (\<lambda>(dPacket, c1).
                case dPacket of
                  None \<Rightarrow> Return (c1, packetsToRemove)
                | Some d \<Rightarrow> Return (c1\<lparr> outputChan := outputChan c1 @ [d],
                    resendPackets := snd (UpdateSentPacket now seqNum (resendPackets c1)) \<rparr>,
                    packetsToRemove))
              else Return (c, packetsToRemove)
         else Return (c, packetsToRemove @ [seqNum]))"

fun resend_pass :: "int \<Rightarrow> u32 list \<Rightarrow> connection \<times> u32 list \<Rightarrow> (connection \<times> u32 list) go" where
  "resend_pass now [] s = Return s"
| "resend_pass now (seqNum # keys) s = go_bind (resend_one now seqNum s) (resend_pass now keys)"

definition resendLostPackets :: "int \<Rightarrow> connection \<Rightarrow> connection go" where
  "resendLostPackets now c =
     (if isClosed c then Return c
      else go_bind (resend_pass now (GetPacketKeys (resendPackets c)) (c, []))
        (\<lambda>(c1, packetsToRemove).
          let (m, rp) = fold RemoveSentPacket packetsToRemove (resendPackets c1, rpool c1)
          in Return (c1\<lparr> resendPackets := m, rpool := rp \<rparr>)))"

section \<open>Sorting keeps the elements\<close>

lemma set_go_insert [simp]: "set (go_insert lt x ys) = insert x (set ys)"
  by (induction ys) auto

lemma set_go_sort [simp]: "set (go_sort lt xs) = set xs"
proof -
  have "set (foldl (\<lambda>acc x. go_insert lt x acc) acc xs) = set acc \<union> set xs" for acc
    by (induction xs arbitrary: acc) auto
  then show ?thesis by (simp add: go_sort_def)
qed

lemma in_sack_sort [simp]: "in_sack k (go_sort lt bs) = in_sack k bs"
  by (simp add: in_sack_def list_ex_iff)

section \<open>Acknowledgements\<close>

lemma remove_fold_pool:
  "answers (snd (fold RemoveSentPacket ks (m, rp))) = answers rp"
proof (induction ks arbitrary: m rp)
  case (Cons k ks)
  obtain m' rp' where r: "RemoveSentPacket k (m, rp) = (m', rp')" by fastforce
  then have "answers rp' = answers rp"
    by (auto simp: RemoveSentPacket_def ReturnChunk_def ReturnElement_def split: option.splits)
  then show ?case using Cons r by simp
qed simp

lemma update_on_ack_lookup:
  assumes "map_ok (resendPackets c)"
  shows "GetSentPacket k (resendPackets (updateResendPacketsOnAck p c)) =
    (if isLess k (AcknowledgmentNum p) \<or> in_sack k (blocks (inSACKOption (tcpOptions c))) then None
     else GetSentPacket k (resendPackets c))"
    and "map_ok (resendPackets (updateResendPacketsOnAck p c))"
proof -
  let ?bs = "go_sort (\<lambda>x y. isLess (leftEdge x) (leftEdge y)) (blocks (inSACKOption (tcpOptions c)))"
  define f where "f = (\<lambda>seqNum.
            case GetSentPacket seqNum (resendPackets c) of None \<Rightarrow> []
            | Some _ \<Rightarrow> (if in_sack seqNum ?bs then [seqNum] else [])
                @ (if isLess seqNum (AcknowledgmentNum p) then [seqNum] else []))"
  define ks where "ks = concat (map f (GetPacketKeys (resendPackets c)))"
  obtain m rp where fo: "fold RemoveSentPacket ks (resendPackets c, rpool c) = (m, rp)" by fastforce
  have m: "resendPackets (updateResendPacketsOnAck p c) = m"
    using fo unfolding ks_def by (simp add: updateResendPacketsOnAck_def Let_def f_def)
  have r: "map_ok m" "(\<lambda>k. GetSentPacket k m) = (\<lambda>k. GetSentPacket k (resendPackets c)) |` (- set ks)"
    using resend.removed_all [of "(resendPackets c, rpool c)" ks] assms fo by simp_all
  show "map_ok (resendPackets (updateResendPacketsOnAck p c))" using m r by simp
  have dom: "k \<in> set (GetPacketKeys (resendPackets c)) \<longleftrightarrow> GetSentPacket k (resendPackets c) \<noteq> None"
    using resend.keys_dom [of "(resendPackets c, rpool c)"] assms by auto
  have "k \<in> set ks \<longleftrightarrow> GetSentPacket k (resendPackets c) \<noteq> None
      \<and> (isLess k (AcknowledgmentNum p) \<or> in_sack k (blocks (inSACKOption (tcpOptions c))))"
  proof -
    have "j \<in> set (f i) \<longleftrightarrow> j = i \<and> GetSentPacket i (resendPackets c) \<noteq> None
      \<and> (isLess i (AcknowledgmentNum p) \<or> in_sack i (blocks (inSACKOption (tcpOptions c))))" for i j
      by (cases "GetSentPacket i (resendPackets c)") (auto simp: f_def)
    then show ?thesis using dom by (auto simp: ks_def)
  qed
  then show "GetSentPacket k (resendPackets (updateResendPacketsOnAck p c)) =
    (if isLess k (AcknowledgmentNum p) \<or> in_sack k (blocks (inSACKOption (tcpOptions c))) then None
     else GetSentPacket k (resendPackets c))"
    using fun_cong [OF r(2), of k] m by (auto simp: restrict_map_def)
qed

section \<open>New packets\<close>

definition pool_gives :: "nat \<Rightarrow> ring_pool \<Rightarrow> bool" where
  \<comment> \<open>the pool answers the next \<open>n\<close> requests with chunks\<close>
  "pool_gives n rp \<longleftrightarrow> n \<le> length (answers rp)
     \<and> (\<forall>a \<in> set (take n (answers rp)). \<exists>e. a = Some e \<and> length (payloadBytes (Data e)) = 65536)"

lemma pool_gives_le: "pool_gives n rp \<Longrightarrow> m \<le> n \<Longrightarrow> pool_gives m rp"
  unfolding pool_gives_def using set_take_subset_set_take [of m n] by (metis (no_types, lifting) order_trans subsetD)

lemma NewPcpPacket_empty:
  "\<exists>p. NewPcpPacket s a f [] c = (Some p, c) \<and> SequenceNumber p = s \<and> AcknowledgmentNum p = a
    \<and> Flags p = f \<and> Payload p = [] \<and> chunk p = None \<and> TcpOptions p = Some (tcpOptions c)
    \<and> IsOpenConnection p = isOpenConnection c \<and> IsKeepAliveMassege p = False"
  by (simp add: NewPcpPacket_def Let_def zero_packet_def)

lemma NewPcpPacket_data:
  assumes "pool_gives (Suc n) (rpool c)" "d \<noteq> []" "length d \<le> 65536"
  shows "\<exists>p e rp. NewPcpPacket s a f d c = (Some p, c\<lparr> rpool := rp \<rparr>) \<and> pool_gives n rp
    \<and> SequenceNumber p = s \<and> AcknowledgmentNum p = a \<and> Flags p = f \<and> Payload p = d
    \<and> chunk p = Some e \<and> GetSlice (Data e) = d \<and> IsKeepAliveMassege p = False"
proof -
  obtain e rest where a: "answers (rpool c) = Some e # rest" "length (payloadBytes (Data e)) = 65536"
    using assms(1) by (cases "answers (rpool c)") (auto simp: pool_gives_def)
  obtain pl where c: "Copy d (Data e) = (None, pl)"
    using assms a Copy_ok_iff [of d "Data e"] by (cases "Copy d (Data e)") auto
  then have "GetSlice pl = d" using Copy_slice [of d "Data e"] by simp
  moreover have "pool_gives n (rpool c\<lparr> answers := rest \<rparr>)"
    using assms(1) a by (simp add: pool_gives_def)
  ultimately show ?thesis
    using assms(2) a c
    by (simp add: NewPcpPacket_def Let_def CopyToPayload_def GetChunk_def GetElement_def zero_packet_def) blast
qed

section \<open>One resend pass\<close>

definition due :: "int \<Rightarrow> connection \<Rightarrow> u32 \<Rightarrow> PacketInfo \<Rightarrow> bool" where
  "due now c k info \<longleftrightarrow> ResendCount info < MaxResendCount (config c)
     \<and> \<not> in_sack k (blocks (inSACKOption (tcpOptions c))) \<and> now - LastSentTime info \<ge> resendInterval c"

definition spent :: "connection \<Rightarrow> u32 \<Rightarrow> PacketInfo \<Rightarrow> bool" where
  "spent c k info \<longleftrightarrow> \<not> ResendCount info < MaxResendCount (config c)
     \<or> in_sack k (blocks (inSACKOption (tcpOptions c)))"

definition resendable :: "packet \<Rightarrow> bool" where
  "resendable p \<longleftrightarrow> (\<exists>e. chunk p = Some e \<and> GetSlice (Data e) = Payload p)
     \<and> Payload p \<noteq> [] \<and> length (Payload p) \<le> 65536"

definition same_segment :: "packet \<Rightarrow> packet \<Rightarrow> bool" where
  "same_segment p q \<longleftrightarrow> SequenceNumber p = SequenceNumber q \<and> Payload p = Payload q \<and> Flags p = Flags q
     \<and> AcknowledgmentNum p = AcknowledgmentNum q"

definition resend_effect :: "int \<Rightarrow> u32 list \<Rightarrow> connection \<Rightarrow> PacketInfo seq_map \<Rightarrow> bool" where
  \<comment> \<open>the map after a pass over \<open>keys\<close>\<close>
  "resend_effect now keys c m \<longleftrightarrow> (\<forall>k. GetSentPacket k m =
     (case GetSentPacket k (resendPackets c) of None \<Rightarrow> None
      | Some info \<Rightarrow> if k \<in> set keys \<and> due now c k info
          then Some (info\<lparr> LastSentTime := now, ResendCount := ResendCount info + 1 \<rparr>) else Some info))"

lemma UpdateSentPacket_lookup:
  "map_ok m \<Longrightarrow> GetSentPacket k m = Some info \<Longrightarrow>
   map_ok (snd (UpdateSentPacket now k m)) \<and> GetSentPacket k' (snd (UpdateSentPacket now k m)) =
    (if k' = k then Some (info\<lparr> LastSentTime := now, ResendCount := ResendCount info + 1 \<rparr>)
     else GetSentPacket k' m)"
  by (auto simp: map_ok_def UpdateSentPacket_def distinct_update update_conv')

lemma resend_one_due:
  assumes "GetSentPacket k (resendPackets c) = Some info" "due now c k info"
    and "resendable (pData info)" "pool_gives (Suc n) (rpool c)" "map_ok (resendPackets c)"
  shows "\<exists>d rp. resend_one now k (c, rem) = Return (c\<lparr> rpool := rp, outputChan := outputChan c @ [d],
      resendPackets := snd (UpdateSentPacket now k (resendPackets c)) \<rparr>, rem)
    \<and> same_segment d (pData info) \<and> pool_gives n rp"
proof -
  let ?p = "pData info"
  obtain e where e: "chunk ?p = Some e" "GetSlice (Data e) = Payload ?p" "Payload ?p \<noteq> []"
    "length (Payload ?p) \<le> 65536"
    using assms(3) by (auto simp: resendable_def)
  obtain d e' rp where d: "NewPcpPacket (SequenceNumber ?p) (AcknowledgmentNum ?p) (Flags ?p) (Payload ?p) c
      = (Some d, c\<lparr> rpool := rp \<rparr>)" "pool_gives n rp" "SequenceNumber d = SequenceNumber ?p"
      "AcknowledgmentNum d = AcknowledgmentNum ?p" "Flags d = Flags ?p" "Payload d = Payload ?p"
    using NewPcpPacket_data [OF assms(4) e(3,4)] by blast
  show ?thesis
    using assms(1,2) e d by (auto simp: resend_one_def due_def Duplicate_def same_segment_def)
qed

lemma resend_one_not_due:
  assumes "GetSentPacket k (resendPackets c) = Some info" "\<not> due now c k info"
  shows "resend_one now k (c, rem) = Return (c, if spent c k info then rem @ [k] else rem)"
  using assms by (auto simp: resend_one_def due_def spent_def)

lemma resend_pass_effect:
  assumes "distinct keys" "map_ok (resendPackets c)"
    and "\<forall>k \<in> set keys. \<exists>info. GetSentPacket k (resendPackets c) = Some info \<and> (due now c k info \<longrightarrow> resendable (pData info))"
    and "pool_gives (length keys) (rpool c)"
  shows "\<exists>ds rp m. resend_pass now keys (c, rem) =
      Return (c\<lparr> rpool := rp, outputChan := outputChan c @ ds, resendPackets := m \<rparr>,
        rem @ filter (\<lambda>k. spent c k (the (GetSentPacket k (resendPackets c)))) keys)
    \<and> map_ok m \<and> resend_effect now keys c m
    \<and> list_all2 (\<lambda>d k. same_segment d (pData (the (GetSentPacket k (resendPackets c)))))
        ds (filter (\<lambda>k. due now c k (the (GetSentPacket k (resendPackets c)))) keys)"
  using assms
proof (induction keys arbitrary: c rem)
  case Nil
  have "resend_effect now [] c (resendPackets c)" by (simp add: resend_effect_def split: option.split)
  then show ?case using Nil.prems
    by (intro exI [of _ "[]"] exI [of _ "rpool c"] exI [of _ "resendPackets c"]) simp
next
  case (Cons k keys)
  obtain info where info: "GetSentPacket k (resendPackets c) = Some info"
    "due now c k info \<Longrightarrow> resendable (pData info)"
    using Cons.prems(3) by auto
  show ?case
  proof (cases "due now c k info")
    case False
    have "\<forall>k \<in> set keys. \<exists>info. GetSentPacket k (resendPackets c) = Some info \<and> (due now c k info \<longrightarrow> resendable (pData info))"
      using Cons.prems(3) by simp
    moreover have "pool_gives (length keys) (rpool c)" using Cons.prems(4) by (rule pool_gives_le) simp
    ultimately obtain ds rp m where ih: "resend_pass now keys (c, if spent c k info then rem @ [k] else rem) =
        Return (c\<lparr> rpool := rp, outputChan := outputChan c @ ds, resendPackets := m \<rparr>,
          (if spent c k info then rem @ [k] else rem) @ filter (\<lambda>k. spent c k (the (GetSentPacket k (resendPackets c)))) keys)"
      "map_ok m" "resend_effect now keys c m"
      "list_all2 (\<lambda>d k. same_segment d (pData (the (GetSentPacket k (resendPackets c)))))
        ds (filter (\<lambda>k. due now c k (the (GetSentPacket k (resendPackets c)))) keys)"
      using Cons.IH [of c "if spent c k info then rem @ [k] else rem"] Cons.prems(1,2) by auto
    have "resend_effect now (k # keys) c m"
      using ih(3) False info(1) by (auto simp: resend_effect_def split: option.splits)
    then show ?thesis
      using ih False info(1) resend_one_not_due [OF info(1) False, of rem] by auto
  next
    case True
    obtain d rp1 where one: "resend_one now k (c, rem) = Return (c\<lparr> rpool := rp1, outputChan := outputChan c @ [d],
        resendPackets := snd (UpdateSentPacket now k (resendPackets c)) \<rparr>, rem)"
      "same_segment d (pData info)" "pool_gives (length keys) rp1"
      using resend_one_due [OF info(1) True info(2) [OF True]] Cons.prems(2,4) by fastforce
    define c1 where "c1 = c\<lparr> rpool := rp1, outputChan := outputChan c @ [d],
        resendPackets := snd (UpdateSentPacket now k (resendPackets c)) \<rparr>"
    have up: "map_ok (resendPackets c1)" "GetSentPacket j (resendPackets c1) =
        (if j = k then Some (info\<lparr> LastSentTime := now, ResendCount := ResendCount info + 1 \<rparr>)
         else GetSentPacket j (resendPackets c))" for j
      using UpdateSentPacket_lookup [OF Cons.prems(2) info(1), of now j] by (simp_all add: c1_def)
    have fr: "due now c1 = due now c" "spent c1 = spent c" by (auto simp: c1_def due_def spent_def fun_eq_iff)
    have kn: "j \<in> set keys \<Longrightarrow> j \<noteq> k" for j using Cons.prems(1) by auto
    have "\<forall>j \<in> set keys. \<exists>info. GetSentPacket j (resendPackets c1) = Some info \<and> (due now c1 j info \<longrightarrow> resendable (pData info))"
      using Cons.prems(3) kn by (auto simp: up(2) fr)
    moreover have "pool_gives (length keys) (rpool c1)" using one(3) by (simp add: c1_def)
    ultimately obtain ds rp m where ih: "resend_pass now keys (c1, rem) =
        Return (c1\<lparr> rpool := rp, outputChan := outputChan c1 @ ds, resendPackets := m \<rparr>,
          rem @ filter (\<lambda>k. spent c1 k (the (GetSentPacket k (resendPackets c1)))) keys)"
      "map_ok m" "resend_effect now keys c1 m"
      "list_all2 (\<lambda>d k. same_segment d (pData (the (GetSentPacket k (resendPackets c1)))))
        ds (filter (\<lambda>k. due now c1 k (the (GetSentPacket k (resendPackets c1)))) keys)"
      using Cons.IH [of c1 rem] Cons.prems(1) up(1) by auto
    have filt: "filter (\<lambda>k. due now c1 k (the (GetSentPacket k (resendPackets c1)))) keys
        = filter (\<lambda>k. due now c k (the (GetSentPacket k (resendPackets c)))) keys"
      "filter (\<lambda>k. spent c1 k (the (GetSentPacket k (resendPackets c1)))) keys
        = filter (\<lambda>k. spent c k (the (GetSentPacket k (resendPackets c)))) keys"
      using kn by (auto simp: up(2) fr intro!: filter_cong)
    have "list_all2 (\<lambda>d k. same_segment d (pData (the (GetSentPacket k (resendPackets c)))))
        ds (filter (\<lambda>k. due now c k (the (GetSentPacket k (resendPackets c)))) keys)"
      by (rule list.rel_mono_strong [OF ih(4) [unfolded filt]]) (use kn in \<open>auto simp: up(2)\<close>)
    moreover have "resend_effect now (k # keys) c m"
      using ih(3) info(1) True kn unfolding resend_effect_def up(2) fr by (auto split: option.splits)
    moreover have "\<not> spent c k info" using True by (auto simp: due_def spent_def)
    moreover have "resend_pass now (k # keys) (c, rem) =
        Return (c\<lparr> rpool := rp, outputChan := outputChan c @ d # ds, resendPackets := m \<rparr>,
          rem @ filter (\<lambda>k. spent c k (the (GetSentPacket k (resendPackets c)))) keys)"
      using ih(1) [unfolded filt] one(1) by (simp add: c1_def)
    ultimately show ?thesis
      using ih(2) one(2) True info(1)
      by (intro exI [of _ "d # ds"] exI [of _ rp] exI [of _ m]) simp
  qed
qed

section \<open>Properties\<close>


definition sent_info :: "int \<Rightarrow> int \<Rightarrow> u32 \<Rightarrow> PacketInfo" where
  "sent_info t n s = \<lparr> LastSentTime = t, ResendCount = n, pData = (zero_packet\<lparr> SequenceNumber := s, Payload := [1],
     chunk := Some \<lparr> elem_id = 5, Data = \<lparr> payloadBytes = 1 # replicate 65535 0, payloadLength = 1 \<rparr> \<rparr> \<rparr>) \<rparr>"

definition resend_conn :: "(u32 \<times> PacketInfo) list \<Rightarrow> sackblock list \<Rightarrow> connection" where
  "resend_conn kvs bs = (sample_conn [])\<lparr> resendPackets := Some kvs,
     tcpOptions := zero_options\<lparr> inSACKOption := \<lparr> blocks = bs \<rparr> \<rparr>,
     rpool := \<lparr> answers = replicate 5 (Some sample_element), returned = [] \<rparr> \<rparr>"




text \<open>
  C22. A resend pass sends one copy, with the same sequence number, acknowledgement, flags and
  payload, of every packet that is due (fewer resends than the maximum, not reported by SACK,
  last sent at least one interval ago), and of no other; it stamps and counts those, drops the
  packets that used up their resends or were reported, and keeps the rest unchanged.
\<close>

theorem resend_pass_sends_due:
  assumes "\<not> isClosed c" "resendPackets c = Some kvs" "distinct (map fst kvs)"
    and "\<forall>(k, info) \<in> set kvs. due now c k info \<longrightarrow> resendable (pData info)"
    and "pool_gives (length kvs) (rpool c)"
  shows "\<exists>c' ds. resendLostPackets now c = Return c' \<and> outputChan c' = outputChan c @ ds
    \<and> list_all2 (\<lambda>d (k, info). same_segment d (pData info)) ds (filter (\<lambda>(k, info). due now c k info) kvs)
    \<and> (\<forall>k. GetSentPacket k (resendPackets c') =
        (case map_of kvs k of None \<Rightarrow> None
         | Some info \<Rightarrow> if spent c k info then None
             else if due now c k info
             then Some (info\<lparr> LastSentTime := now, ResendCount := ResendCount info + 1 \<rparr>) else Some info))"
proof -
  let ?keys = "map fst kvs"
  have ok: "map_ok (resendPackets c)" using assms(2,3) by (simp add: map_ok_def)
  have look: "(k, info) \<in> set kvs \<Longrightarrow> GetSentPacket k (resendPackets c) = Some info" for k info
    using assms(2,3) by simp
  have all: "\<forall>k \<in> set ?keys. \<exists>info. GetSentPacket k (resendPackets c) = Some info \<and> (due now c k info \<longrightarrow> resendable (pData info))"
    using assms(4) look by fastforce
  obtain ds rp m where p: "resend_pass now ?keys (c, []) =
      Return (c\<lparr> rpool := rp, outputChan := outputChan c @ ds, resendPackets := m \<rparr>,
        filter (\<lambda>k. spent c k (the (GetSentPacket k (resendPackets c)))) ?keys)"
    "map_ok m" "resend_effect now ?keys c m"
    "list_all2 (\<lambda>d k. same_segment d (pData (the (GetSentPacket k (resendPackets c)))))
        ds (filter (\<lambda>k. due now c k (the (GetSentPacket k (resendPackets c)))) ?keys)"
    using resend_pass_effect [OF assms(3) ok all, of "[]"] assms(5) by auto
  define gone where "gone = filter (\<lambda>k. spent c k (the (GetSentPacket k (resendPackets c)))) ?keys"
  obtain m' rp' where f: "fold RemoveSentPacket gone (m, rp) = (m', rp')" by fastforce
  have look': "(\<lambda>k. GetSentPacket k m') = (\<lambda>k. GetSentPacket k m) |` (- set gone)"
    using resend.removed_all [of "(m, rp)" gone] p(2) f by simp
  have out: "list_all2 (\<lambda>d (k, info). same_segment d (pData info)) ds (filter (\<lambda>(k, info). due now c k info) kvs)"
  proof -
    have "filter (\<lambda>k. due now c k (the (GetSentPacket k (resendPackets c)))) ?keys
        = map fst (filter (\<lambda>(k, info). due now c k info) kvs)"
      using look by (auto simp: filter_map comp_def intro!: arg_cong [where f = "map fst"] filter_cong)
    then have "list_all2 (\<lambda>d x. same_segment d (pData (the (GetSentPacket (fst x) (resendPackets c)))))
        ds (filter (\<lambda>(k, info). due now c k info) kvs)"
      using p(4) by (simp add: list.rel_map)
    then show ?thesis
      by (rule list.rel_mono_strong) (use look in auto)
  qed
  have maps: "GetSentPacket k m' = (case map_of kvs k of None \<Rightarrow> None
         | Some info \<Rightarrow> if spent c k info then None
             else if due now c k info
             then Some (info\<lparr> LastSentTime := now, ResendCount := ResendCount info + 1 \<rparr>) else Some info)" for k
  proof -
    have g: "GetSentPacket k (resendPackets c) = map_of kvs k" using assms(2) by simp
    have "k \<in> set gone \<longleftrightarrow> (\<exists>info. map_of kvs k = Some info \<and> spent c k info)"
      using look assms(2,3) by (force simp: gone_def g dest: map_of_SomeD)
    moreover have "map_of kvs k = Some info \<Longrightarrow> k \<in> set ?keys" for info
      by (auto dest: map_of_SomeD intro: rev_image_eqI)
    ultimately show ?thesis
      using fun_cong [OF look', of k] p(3) g
      by (auto simp: restrict_map_def resend_effect_def split: option.splits)
  qed
  have "GetPacketKeys (resendPackets c) = ?keys" using assms(2) by simp
  then have "resendLostPackets now c = Return (c\<lparr> outputChan := outputChan c @ ds, resendPackets := m', rpool := rp' \<rparr>)"
    using assms(1) p(1) [folded gone_def] f by (simp add: resendLostPackets_def)
  then show ?thesis using out maps by fastforce
qed

lemma sent_info_resendable: "resendable (pData (sent_info t n s))"
  by (simp add: resendable_def sent_info_def zero_packet_def GetSlice_def)

theorem resend_pass_sends_due_witness:
  "\<exists>c'. resendLostPackets 500 (resend_conn [(100, sent_info 0 0 100), (200, sent_info 400 0 200)] []) = Return c'
    \<and> GetSentPacket 100 (resendPackets c') = Some (sent_info 500 1 100)
    \<and> GetSentPacket 200 (resendPackets c') = Some (sent_info 400 0 200)"
proof -
  let ?kvs = "[(100, sent_info 0 0 100), (200, sent_info 400 0 200)] :: (u32 \<times> PacketInfo) list"
  let ?c = "resend_conn ?kvs []"
  have c: "\<not> isClosed ?c" "resendPackets ?c = Some ?kvs" "resendInterval ?c = 200"
    "MaxResendCount (config ?c) = 5" "inSACKOption (tcpOptions ?c) = \<lparr> blocks = [] \<rparr>"
    by (simp_all add: resend_conn_def sample_conn_def DefaultConnectionConfig_def zero_options_def)
  have d: "due 500 ?c k (sent_info t 0 s) \<longleftrightarrow> t \<le> 300" "\<not> spent ?c k (sent_info t 0 s)" for k t s
    unfolding due_def spent_def c in_sack_def by (auto simp: sent_info_def)
  have pg: "pool_gives (length ?kvs) (rpool ?c)"
    by (simp add: pool_gives_def resend_conn_def sample_element_def)
  obtain c' where c': "resendLostPackets 500 ?c = Return c'"
    and l: "\<forall>k. GetSentPacket k (resendPackets c') = (case map_of ?kvs k of None \<Rightarrow> None
         | Some info \<Rightarrow> if spent ?c k info then None
             else if due 500 ?c k info
             then Some (info\<lparr> LastSentTime := 500, ResendCount := ResendCount info + 1 \<rparr>) else Some info)"
    using resend_pass_sends_due [OF c(1,2) _ _ pg, of 500] by (auto simp: sent_info_resendable)
  show ?thesis using c' l d by (simp add: sent_info_def)
qed

end
