(* ===== verification/Conn_Data.thy ===== *)
theory Conn_Data
  imports Resend "HOL-Library.Multiset"
begin

text \<open>
  The data path of \<open>lib/connection.go\<close>: \<open>newConnection\<close>, \<open>Write\<close>, \<open>acknowledge\<close>,
  \<open>handleDataPacket\<close>, \<open>Read\<close> and \<open>SetReadDeadline\<close>. Sends on a channel are taken to complete.
  \<open>Write\<close> loops on the segment size the peer negotiated and takes fuel; \<open>None\<close> is the loop
  that has not ended. \<open>isn\<close> is the random initial sequence number and \<open>now\<close> the clock.
\<close>

section \<open>The code: creation and timers of a connection\<close>

definition startKeepaliveTimer :: "connection \<Rightarrow> connection" where
  "startKeepaliveTimer c =
     c\<lparr> keepaliveTimer := Some (AfterFunc
          (if \<not> isKeepAliveInProgress c then idleTimeout c else keepaliveInterval c)) \<rparr>"

definition newConnection :: "u32 \<Rightarrow> ring_pool \<Rightarrow> connectionParams \<Rightarrow> ConnectionConfig \<Rightarrow> connection" where
  "newConnection isn rp connParams connConfig =
     (let newConn = \<lparr> params = connParams, config = connConfig, windowSize = 65535,
            initialSeq = isn, initialPeerSeq = 0, nextSequenceNumber = isn, lastAckNumber = 0,
            termStartSeq = 0, termStartPeerSeq = 0, readChannel = [], readDeadline = None,
            terminationCallerState = 0, terminationRespState = 0, initClientState = 0,
            initServerState = 0, connSignalTimer = None, connSignalRetryCount = 0,
            tcpOptions = zero_options\<lparr> windowScaleShiftCount := word_of_int (WindowScale connConfig),
              mss := word_of_int (PreferredMSS connConfig), permitSack := SackPermitSupport connConfig,
              SackEnabled := SackOptionSupport connConfig, timestampEnabled := True \<rparr>,
            writeOnHold = False, isOpenConnection = False, isBidirectional = False,
            keepaliveTimer = None, idleTimeout = time_Second * IdleTimeout connConfig,
            timeoutCount = 0, keepaliveInterval = time_Second * KeepaliveInterval connConfig,
            isKeepAliveInProgress = False, resendPackets = None, resendInterval = 0,
            resendTimer = None, revPacketCache = None, isClosed = False, connCloseBegins = False,
            closeSignalClosed = False, connSignalFailedClosed = False,
            isConnSignalFailedAlreadyClosed = False, rxCount = 0, txCount = 0, rxOooCount = 0,
            outputChan = [], sigOutputChan = Some [], newConnSignals = 0, connCloseSignals = 0,
            rpool = rp \<rparr>;
          c1 = (if RetransmissionEnabled connConfig
                then newConn\<lparr> resendPackets := NewResendPackets,
                       resendInterval := ResendInterval connConfig * time_Millisecond,
                       revPacketCache := NewPacketGapMap \<rparr>
                else newConn)
      in if KeepAliveEnabled connConfig then startKeepaliveTimer c1 else c1)"

section \<open>The code: writing\<close>

datatype write_error = WriteEOF | WriteOnHold | NewPacketFailed nat

fun write_loop :: "nat \<Rightarrow> bytes \<Rightarrow> nat \<Rightarrow> connection \<Rightarrow> ((nat \<times> write_error option) \<times> connection) option" where
  "write_loop 0 buffer written c = None"
| "write_loop (Suc fuel) buffer written c =
     (if length buffer > 0
      then let segmentLength = (if length buffer > unat (mss (tcpOptions c))
                                then unat (mss (tcpOptions c)) else length buffer)
           in case NewPcpPacket (nextSequenceNumber c) (lastAckNumber c) ACKFlag (take segmentLength buffer) c of
               (None, c1) \<Rightarrow> Some ((0, Some (NewPacketFailed segmentLength)), c1)
             | (Some packet, c1) \<Rightarrow>
                 write_loop fuel (drop segmentLength buffer) (written + segmentLength)
                   (c1\<lparr> nextSequenceNumber := SeqIncrementBy (nextSequenceNumber c1) (word_of_nat segmentLength),
                        outputChan := outputChan c1 @ [packet] \<rparr>)
      else Some ((written, None), c))"

definition Write :: "nat \<Rightarrow> bytes \<Rightarrow> connection \<Rightarrow> ((nat \<times> write_error option) \<times> connection) option" where
  "Write fuel buffer c =
     (if isClosed c then Some ((0, Some WriteEOF), c)
      else if writeOnHold c then Some ((0, Some WriteOnHold), c)
      else write_loop fuel buffer 0 (c\<lparr> txCount := txCount c + 1 \<rparr>))"

section \<open>The code: receiving\<close>

definition acknowledge :: "connection \<Rightarrow> connection" where
  "acknowledge c =
     (case NewPcpPacket (nextSequenceNumber c) (lastAckNumber c) ACKFlag [] c of
        (Some ackPacket, c1) \<Rightarrow> c1\<lparr> outputChan := outputChan c1 @ [ackPacket] \<rparr>
      | (None, c1) \<Rightarrow> c1)"

definition return_chunk_of :: "packet \<Rightarrow> connection \<Rightarrow> connection" where
  "return_chunk_of packet c = c\<lparr> rpool := snd (ReturnChunk packet (rpool c)) \<rparr>"

fun extend_right :: "u32 \<Rightarrow> ReceivedPacket list \<Rightarrow> u32" where
  "extend_right edge [] = edge"
| "extend_right edge (nextPacket # rest) =
     (if edge = SequenceNumber (Packet nextPacket)
      then extend_right (SeqIncrementBy (SequenceNumber (Packet nextPacket))
             (word_of_nat (length (Payload (Packet nextPacket))))) rest
      else edge)"

fun expire_scan :: "int \<Rightarrow> int \<Rightarrow> ReceivedPacket list \<Rightarrow> ReceivedPacket list \<Rightarrow> connection \<Rightarrow> connection" where
  \<comment> \<open>the scan from the highest packet down: the packets still to see, highest first, and those seen\<close>
  "expire_scan now timeout [] later c = c"
| "expire_scan now timeout (cachedPacket # earlier) later c =
     (if now - ReceivedTime cachedPacket > timeout
      then let edge = extend_right (SeqIncrementBy (SequenceNumber (Packet cachedPacket))
                 (word_of_nat (length (Payload (Packet cachedPacket))))) later
           in if edge > lastAckNumber c
              then trimOutSackOption edge (c\<lparr> lastAckNumber := edge \<rparr>)
              else c
      else expire_scan now timeout earlier (cachedPacket # later) c)"

fun deliver :: "u32 list \<Rightarrow> connection \<Rightarrow> connection go" where
  "deliver [] c = Return c"
| "deliver (seqNum # rest) c =
     (case GetPacket seqNum (revPacketCache c) of
        None \<Rightarrow> Panic
      | Some packetToBeRemoved \<Rightarrow>
          deliver rest (c\<lparr> readChannel := readChannel c @ [Packet packetToBeRemoved],
                           revPacketCache := RemovePacket seqNum (revPacketCache c) \<rparr>))"

definition handleDataPacket :: "int \<Rightarrow> packet \<Rightarrow> connection \<Rightarrow> connection go" where
  "handleDataPacket now packet c0 =
     (let c = c0\<lparr> rxCount := rxCount c0 + 1 \<rparr> in
      if SequenceNumber packet < lastAckNumber c
      then Return (return_chunk_of packet (c\<lparr> rxOooCount := rxOooCount c + 1 \<rparr>))
      else if SackEnabled (tcpOptions c) \<and> RetransmissionEnabled (config c)
      then (case GetPacket (SequenceNumber packet) (revPacketCache c) of
              Some _ \<Rightarrow> Return (return_chunk_of packet c)
            | None \<Rightarrow>
                let (ack, bs) = updateACKAndSACK c packet;
                    c1 = c\<lparr> lastAckNumber := ack,
                            tcpOptions := (tcpOptions c)\<lparr> outSACKOption := \<lparr> blocks = bs \<rparr> \<rparr> \<rparr>
                in go_bind (AddPacket now packet (revPacketCache c1)) (\<lambda>m.
                     let c2 = c1\<lparr> revPacketCache := m \<rparr>;
                         packetsInOrder = getPacketsInAscendingOrder m;
                         resentTimeOut = MaxResendCount (config c2) * ResendInterval (config c2);
                         c3 = expire_scan now (resentTimeOut * time_Millisecond) (rev packetsInOrder) [] c2;
                         packetsToDelete = map (\<lambda>p. SequenceNumber (Packet p))
                           (takeWhile (\<lambda>p. SequenceNumber (Packet p) < lastAckNumber c3) packetsInOrder)
                     in go_bind (deliver packetsToDelete c3) (\<lambda>c4. Return (acknowledge c4))))
      else let c1 = (if isGreaterOrEqual (SequenceNumber packet) (lastAckNumber c)
                     then c\<lparr> lastAckNumber := SeqIncrementBy (SequenceNumber packet)
                              (word_of_nat (length (Payload packet))) \<rparr>
                     else c)
           in Return (acknowledge (c1\<lparr> readChannel := readChannel c1 @ [packet] \<rparr>)))"

section \<open>The code: reading\<close>

datatype read_error = ReadEOF | ReadBufferTooShort nat nat | ReadTimeout | ReadDeadlinePast

definition pcpRead :: "bytes \<Rightarrow> packet option \<Rightarrow> connection \<Rightarrow> (nat \<times> read_error option) \<times> bytes \<times> connection" where
  \<comment> \<open>the result, the caller's buffer and the connection; no packet is a closed channel\<close>
  "pcpRead buffer packet c =
     (case packet of
        None \<Rightarrow> ((0, Some ReadEOF), buffer, c)
      | Some p \<Rightarrow>
          let payloadLength = length (Payload p)
          in if payloadLength > length buffer
             then ((0, Some (ReadBufferTooShort (length buffer) payloadLength)), buffer, return_chunk_of p c)
             else ((payloadLength, None), copy_at 0 (Payload p) buffer, return_chunk_of p c))"

definition Read :: "int \<Rightarrow> bytes \<Rightarrow> connection \<Rightarrow> ((nat \<times> read_error option) \<times> bytes \<times> connection) option" where
  \<comment> \<open>\<open>None\<close> is a blocking read with nothing to read; with a deadline ahead and nothing to read,
     the deadline passes\<close>
  "Read now buffer c =
     (if isClosed c then Some ((0, Some ReadEOF), buffer, c)
      else case readDeadline c of
        None \<Rightarrow> (case readChannel c of
            [] \<Rightarrow> None
          | p # rest \<Rightarrow> Some (pcpRead buffer (Some p) (c\<lparr> readChannel := rest \<rparr>)))
      | Some t \<Rightarrow>
          if t > now
          then (case readChannel c of
              [] \<Rightarrow> Some ((0, Some ReadTimeout), buffer, c)
            | p # rest \<Rightarrow> Some (pcpRead buffer (Some p) (c\<lparr> readChannel := rest \<rparr>)))
          else Some ((0, Some ReadDeadlinePast), buffer, c))"

definition SetReadDeadline :: "int \<Rightarrow> int option \<Rightarrow> connection \<Rightarrow> bool \<times> connection" where
  \<comment> \<open>\<open>None\<close> is the zero time; the result says whether the deadline was accepted\<close>
  "SetReadDeadline now t c =
     (if (case t of None \<Rightarrow> True | Some d \<Rightarrow> d > now) then (True, c\<lparr> readDeadline := t \<rparr>) else (False, c))"

section \<open>Streams of segments\<close>

fun carries :: "u32 \<Rightarrow> packet list \<Rightarrow> bytes \<Rightarrow> bool" where
  \<comment> \<open>the packets carry the bytes, in order and without gaps, from sequence number \<open>s\<close> on\<close>
  "carries s [] b \<longleftrightarrow> b = []"
| "carries s (p # ps) b \<longleftrightarrow> SequenceNumber p = s \<and> Payload p \<noteq> [] \<and> length (Payload p) \<le> 65536
     \<and> take (length (Payload p)) b = Payload p
     \<and> carries (s + word_of_nat (length (Payload p))) ps (drop (length (Payload p)) b)"

lemma carries_concat: "carries s ps b \<Longrightarrow> concat (map Payload ps) = b"
proof (induction ps arbitrary: s b)
  case (Cons p ps)
  then show ?case using append_take_drop_id [of "length (Payload p)" b] by fastforce
qed simp

lemma write_loop_sends:
  assumes "0 < unat (mss (tcpOptions c))" "pool_gives (length buffer) (rpool c)" "length buffer < fuel"
  shows "\<exists>ps rp. write_loop fuel buffer n c = Some ((n + length buffer, None),
      c\<lparr> nextSequenceNumber := nextSequenceNumber c + word_of_nat (length buffer),
         outputChan := outputChan c @ ps, rpool := rp \<rparr>)
    \<and> carries (nextSequenceNumber c) ps buffer
    \<and> (\<forall>p \<in> set ps. length (Payload p) \<le> unat (mss (tcpOptions c)) \<and> AcknowledgmentNum p = lastAckNumber c
         \<and> Flags p = ACKFlag)"
  using assms
proof (induction fuel arbitrary: buffer n c)
  case (Suc fuel)
  show ?case
  proof (cases "buffer = []")
    case True
    then show ?thesis by (intro exI [of _ "[]"] exI [of _ "rpool c"]) simp
  next
    case False
    let ?m = "unat (mss (tcpOptions c))"
    define seg where "seg = (if length buffer > ?m then ?m else length buffer)"
    have seg: "0 < seg" "seg \<le> length buffer" "seg \<le> ?m"
      using False Suc.prems(1) by (auto simp: seg_def)
    have "seg \<le> 65536" using seg(3) unat_u16_less [of "mss (tcpOptions c)"] by linarith
    define d where "d = take seg buffer"
    have d: "d \<noteq> []" "length d \<le> 65536" "length d = seg" using seg \<open>seg \<le> 65536\<close> by (auto simp: d_def)
    have "Suc (length (drop seg buffer)) \<le> length buffer" using seg by simp
    then have "pool_gives (Suc (length (drop seg buffer))) (rpool c)"
      using Suc.prems(2) pool_gives_le by blast
    then obtain p rp where p: "NewPcpPacket (nextSequenceNumber c) (lastAckNumber c) ACKFlag d c
        = (Some p, c\<lparr> rpool := rp \<rparr>)" "pool_gives (length (drop seg buffer)) rp"
        "SequenceNumber p = nextSequenceNumber c" "AcknowledgmentNum p = lastAckNumber c" "Flags p = ACKFlag"
        "Payload p = d"
      using NewPcpPacket_data [OF _ d(1,2)] by blast
    define c1 where "c1 = c\<lparr> rpool := rp, nextSequenceNumber := nextSequenceNumber c + word_of_nat seg,
        outputChan := outputChan c @ [p] \<rparr>"
    have c1: "mss (tcpOptions c1) = mss (tcpOptions c)" "lastAckNumber c1 = lastAckNumber c" "rpool c1 = rp"
      "nextSequenceNumber c1 = nextSequenceNumber c + word_of_nat seg" "outputChan c1 = outputChan c @ [p]"
      by (simp_all add: c1_def)
    have lf: "length (drop seg buffer) < fuel" using Suc.prems(3) seg by simp
    obtain ps rp' where ih: "write_loop fuel (drop seg buffer) (n + seg) c1
        = Some ((n + seg + length (drop seg buffer), None),
          c1\<lparr> nextSequenceNumber := nextSequenceNumber c1 + word_of_nat (length (drop seg buffer)),
              outputChan := outputChan c1 @ ps, rpool := rp' \<rparr>)"
        "carries (nextSequenceNumber c1) ps (drop seg buffer)"
        "\<forall>p \<in> set ps. length (Payload p) \<le> ?m \<and> AcknowledgmentNum p = lastAckNumber c \<and> Flags p = ACKFlag"
      using Suc.IH [of c1 "drop seg buffer" "n + seg"] Suc.prems(1) p(2) lf unfolding c1 by blast
    have "(word_of_nat seg + word_of_nat (length buffer - seg) :: u32) = word_of_nat (length buffer)"
      using seg(2) by (simp flip: of_nat_add)
    then have sum: "nextSequenceNumber c + word_of_nat seg + word_of_nat (length buffer - seg)
        = nextSequenceNumber c + word_of_nat (length buffer)" by (simp add: add.assoc)
    have step: "write_loop (Suc fuel) buffer n c = write_loop fuel (drop seg buffer) (n + seg) c1"
      using False p(1) by (simp add: seg_def [symmetric] d_def [symmetric] c1_def)
    have "write_loop (Suc fuel) buffer n c = Some ((n + length buffer, None),
        c\<lparr> nextSequenceNumber := nextSequenceNumber c + word_of_nat (length buffer),
           outputChan := outputChan c @ p # ps, rpool := rp' \<rparr>)"
      unfolding step ih(1) using seg(2) sum by (simp add: c1_def)
    moreover have "carries (nextSequenceNumber c) (p # ps) buffer"
      using ih(2) p(3,6) d by (simp add: c1(4) d_def)
    ultimately show ?thesis
      using ih(3) p(4-6) d(3) seg(3) by (intro exI [of _ "p # ps"] exI [of _ rp']) auto
  qed
qed simp

lemma write_loop_mss_0:
  "mss (tcpOptions c) = 0 \<Longrightarrow> buffer \<noteq> [] \<Longrightarrow> write_loop fuel buffer n c = None"
proof (induction fuel arbitrary: n c)
  case (Suc fuel)
  obtain p where "NewPcpPacket (nextSequenceNumber c) (lastAckNumber c) ACKFlag [] c = (Some p, c)"
    using NewPcpPacket_empty by blast
  then show ?case using Suc.prems Suc.IH by simp
qed simp

section \<open>Receiving in order\<close>

definition sack_mode :: "connection \<Rightarrow> bool" where
  "sack_mode c \<longleftrightarrow> SackEnabled (tcpOptions c) \<and> RetransmissionEnabled (config c)"

definition nothing_cached :: "connection \<Rightarrow> bool" where
  \<comment> \<open>the receiver holds nothing behind a gap\<close>
  "nothing_cached c \<longleftrightarrow> (sack_mode c \<longrightarrow> revPacketCache c = Some [] \<and> out_blocks c = []
     \<and> 0 \<le> MaxResendCount (config c) * ResendInterval (config c))"

lemma acknowledge_eq:
  "\<exists>a. acknowledge c = c\<lparr> outputChan := outputChan c @ [a] \<rparr> \<and> SequenceNumber a = nextSequenceNumber c
    \<and> AcknowledgmentNum a = lastAckNumber c \<and> Flags a = ACKFlag \<and> Payload a = [] \<and> chunk a = None
    \<and> TcpOptions a = Some (tcpOptions c) \<and> IsOpenConnection a = isOpenConnection c"
  using NewPcpPacket_empty [of "nextSequenceNumber c" "lastAckNumber c" ACKFlag c]
  by (auto simp: acknowledge_def)

lemma word_add_no_wrap:
  assumes "unat (s :: u32) + n < 4294967296" "0 < n"
  shows "s < s + word_of_nat n"
proof -
  have "unat (s + word_of_nat n) = unat s + n" using assms(1) by (simp add: unat_word_ariths unat_of_nat)
  then show ?thesis using assms(2) by (simp add: word_less_nat_alt)
qed

lemma in_order_segment:
  assumes "nothing_cached c" "SequenceNumber p = lastAckNumber c" "Payload p \<noteq> []"
    and "unat (lastAckNumber c) + length (Payload p) < 4294967296"
  shows "\<exists>c' a. handleDataPacket now p c = Return c' \<and> nothing_cached c'
    \<and> readChannel c' = readChannel c @ [p]
    \<and> lastAckNumber c' = lastAckNumber c + word_of_nat (length (Payload p))
    \<and> outputChan c' = outputChan c @ [a] \<and> AcknowledgmentNum a = lastAckNumber c'
    \<and> Flags a = ACKFlag \<and> rpool c' = rpool c \<and> isClosed c' = isClosed c \<and> readDeadline c' = readDeadline c"
proof -
  let ?s = "lastAckNumber c"
  let ?e = "?s + word_of_nat (length (Payload p)) :: u32"
  have lt: "?s < ?e" using word_add_no_wrap [OF assms(4)] assms(3) by simp
  have ge: "isGreaterOrEqual ?s ?s" "\<not> isLess ?s ?s" by (simp_all add: isLess_def isGreaterOrEqual_def)
  show ?thesis
  proof (cases "sack_mode c")
    case True
    define c1 where "c1 = c\<lparr> rxCount := rxCount c + 1 \<rparr>"
    have s: "revPacketCache c1 = Some []" "out_blocks c1 = []" "lastAckNumber c1 = ?s"
      "0 \<le> MaxResendCount (config c) * ResendInterval (config c)" "sack_mode c1"
      using assms(1) True by (auto simp: nothing_cached_def c1_def out_blocks_def sack_mode_def)
    have u: "updateACKAndSACK c1 p = (?e, [])"
      using updateACKAndSACK_eq [OF refl refl refl refl, of c1 p] assms(2) s ge by simp
    define c2 where "c2 = c1\<lparr> lastAckNumber := ?e,
        tcpOptions := (tcpOptions c1)\<lparr> outSACKOption := \<lparr> blocks = [] \<rparr> \<rparr>,
        revPacketCache := Some [(?s, NewReceivedPacket now p)] \<rparr>"
    define c3 where "c3 = c2\<lparr> readChannel := readChannel c @ [p], revPacketCache := Some [] \<rparr>"
    have ex: "expire_scan now t [NewReceivedPacket now p] [] c2 = c2" if "0 \<le> t" for t
      using that by (simp add: NewReceivedPacket_def)
    obtain a where a: "acknowledge c3 = c3\<lparr> outputChan := outputChan c3 @ [a] \<rparr>"
      "AcknowledgmentNum a = ?e" "Flags a = ACKFlag"
      using acknowledge_eq [of c3] by (auto simp: c3_def c2_def)
    have "handleDataPacket now p c = Return (acknowledge c3)"
      using assms(2) s(5) u ex lt s(1,3,4)
      unfolding handleDataPacket_def Let_def c1_def [symmetric] sack_mode_def
      by (simp add: AddPacket_def getPacketsInAscendingOrder_def c2_def [symmetric] NewReceivedPacket_def)
        (simp add: c3_def c2_def c1_def RemovePacket_def NewReceivedPacket_def)
    then show ?thesis
      using a True s(4) by (auto simp: c3_def c2_def c1_def nothing_cached_def sack_mode_def out_blocks_def)
  next
    case False
    define c1 where "c1 = c\<lparr> rxCount := rxCount c + 1, lastAckNumber := ?e, readChannel := readChannel c @ [p] \<rparr>"
    obtain a where a: "acknowledge c1 = c1\<lparr> outputChan := outputChan c1 @ [a] \<rparr>"
      "AcknowledgmentNum a = ?e" "Flags a = ACKFlag"
      using acknowledge_eq [of c1] by (auto simp: c1_def)
    have "handleDataPacket now p c = Return (acknowledge c1)"
      using assms(2) False ge by (auto simp: handleDataPacket_def Let_def sack_mode_def c1_def)
    then show ?thesis
      using a False by (auto simp: c1_def nothing_cached_def sack_mode_def)
  qed
qed

section \<open>Receiving behind a gap\<close>

lemma deliver_all:
  assumes "map_ok (revPacketCache c)" "distinct keys" "\<forall>k \<in> set keys. GetPacket k (revPacketCache c) = Some (f k)"
  shows "deliver keys c = Return (c\<lparr> readChannel := readChannel c @ map (\<lambda>k. Packet (f k)) keys,
    revPacketCache := fold RemovePacket keys (revPacketCache c) \<rparr>)"
  using assms
proof (induction keys arbitrary: c)
  case (Cons k keys)
  let ?c1 = "c\<lparr> readChannel := readChannel c @ [Packet (f k)], revPacketCache := RemovePacket k (revPacketCache c) \<rparr>"
  have r: "map_ok (RemovePacket k (revPacketCache c))"
    "GetPacket j (RemovePacket k (revPacketCache c)) = ((\<lambda>k. GetPacket k (revPacketCache c))(k := None)) j" for j
    using gap.remove_forgets [OF Cons.prems(1), of k] by (auto dest: fun_cong [of _ _ j])
  have "deliver keys ?c1 = Return (?c1\<lparr> readChannel := readChannel ?c1 @ map (\<lambda>k. Packet (f k)) keys,
      revPacketCache := fold RemovePacket keys (revPacketCache ?c1) \<rparr>)"
    using Cons.prems r by (intro Cons.IH) auto
  then show ?case using Cons.prems(3) by simp
qed simp

lemma map_ok_empty: "map_ok m \<Longrightarrow> \<forall>k. GetPacket k m = None \<Longrightarrow> m = Some []"
  by (auto simp: map_ok_def) (metis map_of_eq_empty_iff)

definition keyed :: "int \<Rightarrow> packet list \<Rightarrow> (u32 \<times> ReceivedPacket) list" where
  "keyed now ps = map (\<lambda>p. (SequenceNumber p, NewReceivedPacket now p)) ps"

lemma keyed_simps [simp]:
  "map fst (keyed now ps) = map SequenceNumber ps" "map snd (keyed now ps) = map (NewReceivedPacket now) ps"
  "keyed now (ps @ qs) = keyed now ps @ keyed now qs" "keyed now [] = []"
  "keyed now (p # ps) = (SequenceNumber p, NewReceivedPacket now p) # keyed now ps"
  by (simp_all add: keyed_def comp_def)

lemma Packet_NewReceivedPacket [simp]: "Packet (NewReceivedPacket now p) = p"
  "ReceivedTime (NewReceivedPacket now p) = now"
  by (simp_all add: NewReceivedPacket_def)

lemma sort_key_distinct:
  assumes "mset ys = mset xs" "sorted (map f ys)" "distinct (map f ys)"
  shows "sort_key f xs = ys"
proof -
  have st: "set ys = set xs" using assms(1) by (rule mset_eq_setD)
  have "map f (sort_key f xs) = map f ys"
  proof -
    have "sort (map f xs) = map f (sort_key f xs)"
      by (rule properties_for_sort) simp_all
    moreover have "sort (map f xs) = map f ys"
      by (rule properties_for_sort) (use assms in \<open>simp_all add: mset_map\<close>)
    ultimately show ?thesis by simp
  qed
  moreover have "inj_on f (set (sort_key f xs) \<union> set ys)" using assms(3) st by (simp add: distinct_map)
  ultimately show ?thesis by (rule map_inj_on)
qed

lemma sorted_order:
  assumes "sorted (map SequenceNumber ps)"
  shows "getPacketsInAscendingOrder (Some (keyed now ps)) = map (NewReceivedPacket now) ps"
proof -
  have "sort_key (\<lambda>p. SequenceNumber (Packet p)) (map (NewReceivedPacket now) ps) = map (NewReceivedPacket now) ps"
    by (rule sort_key_id_if_sorted) (use assms in \<open>simp add: comp_def\<close>)
  then show ?thesis by (simp add: getPacketsInAscendingOrder_def)
qed

lemma expire_none: "0 \<le> t \<Longrightarrow> expire_scan now t (map (NewReceivedPacket now) ps) later c = c"
  by (induction ps arbitrary: later) simp_all

lemma expire_all_fresh:
  "0 \<le> t \<Longrightarrow> expire_scan now t (rev (map (NewReceivedPacket now) ps)) [] c = c"
  using expire_none [of t now "rev ps" "[]" c] by (simp add: rev_map)

text \<open>One new data packet in SACK mode, when nothing cached is old enough to be given up.\<close>

lemma handle_sack_mode:
  assumes "sack_mode c" "\<not> SequenceNumber p < lastAckNumber c" "revPacketCache c = Some kvs"
    and "map_of kvs (SequenceNumber p) = None" "0 \<le> MaxResendCount (config c) * ResendInterval (config c)"
    and "updateACKAndSACK (c\<lparr> rxCount := rxCount c + 1 \<rparr>) p = (ack, bs)"
    and "getPacketsInAscendingOrder (Some (kvs @ [(SequenceNumber p, NewReceivedPacket now p)])) = map (NewReceivedPacket now) qs"
  shows "handleDataPacket now p c =
    go_bind (deliver (map SequenceNumber (takeWhile (\<lambda>q. SequenceNumber q < ack) qs))
      (c\<lparr> rxCount := rxCount c + 1, lastAckNumber := ack,
          tcpOptions := (tcpOptions c)\<lparr> outSACKOption := \<lparr> blocks = bs \<rparr> \<rparr>,
          revPacketCache := Some (kvs @ [(SequenceNumber p, NewReceivedPacket now p)]) \<rparr>))
      (\<lambda>c4. Return (acknowledge c4))"
proof -
  have "AddPacket now p (Some kvs) = Return (Some (kvs @ [(SequenceNumber p, NewReceivedPacket now p)]))"
    using update_absent [OF assms(4)] by (simp add: AddPacket_def)
  moreover have "0 \<le> MaxResendCount (config c) * ResendInterval (config c) * time_Millisecond"
    using assms(5) by simp
  ultimately show ?thesis
    using assms expire_all_fresh [of _ now qs]
    by (simp add: handleDataPacket_def sack_mode_def takeWhile_map comp_def)
qed

fun raw_run :: "nat \<Rightarrow> packet list \<Rightarrow> nat \<Rightarrow> bool" where
  \<comment> \<open>the packets lie end to end from raw number \<open>i\<close> to \<open>j\<close>, without wrapping\<close>
  "raw_run i [] j \<longleftrightarrow> i = j"
| "raw_run i (p # ps) j \<longleftrightarrow> unat (SequenceNumber p) = i \<and> Payload p \<noteq> [] \<and> raw_run (i + length (Payload p)) ps j"

lemma raw_run_append: "raw_run i (ps @ qs) j \<longleftrightarrow> (\<exists>k. raw_run i ps k \<and> raw_run k qs j)"
  by (induction ps arbitrary: i) auto

lemma raw_run_bounds: "raw_run i ps j \<Longrightarrow> i \<le> j \<and> (\<forall>p \<in> set ps. i \<le> unat (SequenceNumber p) \<and> unat (SequenceNumber p) < j)"
proof (induction ps arbitrary: i)
  case (Cons p ps)
  have "i + length (Payload p) \<le> j \<and> (\<forall>p' \<in> set ps. i + length (Payload p) \<le> unat (SequenceNumber p') \<and> unat (SequenceNumber p') < j)"
    using Cons.IH [of "i + length (Payload p)"] Cons.prems by simp
  moreover have "0 < length (Payload p)" "unat (SequenceNumber p) = i" using Cons.prems by simp_all
  ultimately have "i \<le> j" "unat (SequenceNumber p) < j"
    "\<forall>p' \<in> set ps. i \<le> unat (SequenceNumber p') \<and> unat (SequenceNumber p') < j"
    by (linarith, linarith, fastforce)
  then show ?case using \<open>unat (SequenceNumber p) = i\<close> by simp
qed simp

lemma raw_run_sorted: "raw_run i ps j \<Longrightarrow> sorted (map SequenceNumber ps) \<and> distinct (map SequenceNumber ps)"
proof (induction ps arbitrary: i)
  case (Cons p ps)
  have "SequenceNumber p < SequenceNumber q" if "q \<in> set ps" for q
  proof -
    have "i + length (Payload p) \<le> unat (SequenceNumber q)" "0 < length (Payload p)" "unat (SequenceNumber p) = i"
      using raw_run_bounds [of "i + length (Payload p)" ps j] Cons.prems that by auto
    then show ?thesis unfolding word_less_nat_alt by linarith
  qed
  then show ?case using Cons.IH [of "i + length (Payload p)"] Cons.prems
    by (auto intro: less_imp_le) (metis less_irrefl)
qed simp

definition gap_state :: "int \<Rightarrow> u32 \<Rightarrow> u32 \<Rightarrow> packet list \<Rightarrow> u32 \<Rightarrow> connection \<Rightarrow> bool" where
  \<comment> \<open>everything before \<open>s\<close> is acknowledged, \<open>s\<close> up to \<open>l\<close> is missing, the packets \<open>ps\<close> hold \<open>l\<close> up to \<open>e\<close>\<close>
  "gap_state now s l ps e c \<longleftrightarrow> sack_mode c \<and> lastAckNumber c = s \<and> 0 \<le> MaxResendCount (config c) * ResendInterval (config c)
     \<and> out_blocks c = [\<lparr> leftEdge = l, rightEdge = e \<rparr>] \<and> revPacketCache c = Some (keyed now ps)
     \<and> s < l \<and> raw_run (unat l) ps (unat e) \<and> unat e - unat s < 2147483648"

lemma raw_dist: "a \<le> b \<Longrightarrow> seq_dist b a = unat b - unat a" for a b :: u32
  by (simp add: seq_dist_def unat_sub)

lemma unat_end: "unat s + n < 4294967296 \<Longrightarrow> unat (s + word_of_nat n :: u32) = unat s + n"
  by (simp add: unat_word_ariths unat_of_nat)

lemma gap_grows:
  assumes "gap_state now s l ps e c" "SequenceNumber q = e" "Payload q \<noteq> []"
    and "unat e + length (Payload q) < 4294967296" "unat e + length (Payload q) - unat s < 2147483648"
  shows "\<exists>c'. handleDataPacket now q c = Return c' \<and> gap_state now s l (ps @ [q]) (e + word_of_nat (length (Payload q))) c'
    \<and> readChannel c' = readChannel c"
proof -
  define e' where "e' = e + word_of_nat (length (Payload q))"
  have ue: "unat e' = unat e + length (Payload q)" unfolding e'_def by (rule unat_end [OF assms(4)])
  note g = assms(1) [unfolded gap_state_def]
  have run: "raw_run (unat l) (ps @ [q]) (unat e')"
    using g assms(2,3) by (auto simp: raw_run_append ue)
  have le: "unat l \<le> unat e" using raw_run_bounds g by blast
  have sl: "unat s < unat l" using g by (simp add: word_less_nat_alt)
  have d: "seq_dist l s = unat l - unat s" "seq_dist e s = unat e - unat s" "seq_dist e' s = unat e' - unat s"
    using sl le ue by (auto simp: raw_dist [of s l] raw_dist [of s e] raw_dist [of s e'] word_le_nat_alt)
  have w: "seq_dist s s < 2147483648" "seq_dist l s < 2147483648" "seq_dist e s < 2147483648" "seq_dist e' s < 2147483648"
    using d sl le ue assms(5) g by auto
  define c1 where "c1 = c\<lparr> rxCount := rxCount c + 1 \<rparr>"
  have ord: "\<not> isLess e s" "isGreaterOrEqual e l"
    using window_order(2) [OF w(3,1)] window_order(3) [OF w(3,2)] d sl le by auto
  have ord': "\<not> isLessOrEqual e' e"
  proof -
    have "0 < length (Payload q)" using assms(3) by simp
    then show ?thesis unfolding window_order(4) [OF w(4,3)] d ue using sl le by linarith
  qed
  have ne: "e \<noteq> s" using sl le by auto
  have u: "updateACKAndSACK c1 q = (s, [\<lparr> leftEdge = l, rightEdge = e' \<rparr>])"
    using updateACKAndSACK_eq [OF refl refl refl refl, of c1 q] assms(2) g ord ord' ne
    by (simp add: c1_def out_blocks_def e'_def [symmetric] sack_scan.simps)
  have seqs: "\<forall>p \<in> set (ps @ [q]). unat s < unat (SequenceNumber p)"
    using raw_run_bounds [OF run] sl by fastforce
  have new: "map_of (keyed now ps) e = None"
    using raw_run_bounds [of "unat l" ps "unat e"] g by (fastforce simp: keyed_def map_of_eq_None_iff)
  define c3 where "c3 = c1\<lparr> lastAckNumber := s,
      tcpOptions := (tcpOptions c1)\<lparr> outSACKOption := \<lparr> blocks = [\<lparr> leftEdge = l, rightEdge = e' \<rparr>] \<rparr> \<rparr>,
      revPacketCache := Some (keyed now (ps @ [q])) \<rparr>"
  have ordr: "getPacketsInAscendingOrder (Some (keyed now ps @ [(SequenceNumber q, NewReceivedPacket now q)]))
      = map (NewReceivedPacket now) (ps @ [q])"
    using raw_run_sorted [OF run] sorted_order [of "ps @ [q]" now] by simp
  have tw: "takeWhile (\<lambda>p. SequenceNumber p < s) (ps @ [q]) = []"
    using seqs by (cases ps) (auto simp: word_less_nat_alt)
  have "handleDataPacket now q c = Return (acknowledge c3)"
  proof (subst handle_sack_mode [where qs = "ps @ [q]", OF _ _ _ _ _ u [unfolded c1_def] ordr])
    show "\<not> SequenceNumber q < lastAckNumber c" using assms(2) g sl le by (simp add: word_less_nat_alt)
  qed (use assms(2) g new tw in \<open>simp_all add: c3_def c1_def\<close>)
  moreover obtain a where "acknowledge c3 = c3\<lparr> outputChan := outputChan c3 @ [a] \<rparr>"
    using acknowledge_eq [of c3] by blast
  ultimately show ?thesis
    using g run ue assms(5)
    by (auto simp: gap_state_def c3_def c1_def sack_mode_def out_blocks_def e'_def [symmetric] simp del: keyed_simps)
qed

lemma gap_fills:
  assumes "gap_state now s l ps e c" "SequenceNumber q = s" "Payload q \<noteq> []"
    and "l = s + word_of_nat (length (Payload q))" "unat s + length (Payload q) < 4294967296"
  shows "\<exists>c'. handleDataPacket now q c = Return c' \<and> nothing_cached c' \<and> lastAckNumber c' = e
    \<and> readChannel c' = readChannel c @ q # ps"
proof -
  note g = assms(1) [unfolded gap_state_def]
  have ul: "unat l = unat s + length (Payload q)" unfolding assms(4) by (rule unat_end [OF assms(5)])
  have run: "raw_run (unat s) (q # ps) (unat e)" using g assms(2,3) ul by simp
  have le: "unat l \<le> unat e" using raw_run_bounds g by blast
  define c1 where "c1 = c\<lparr> rxCount := rxCount c + 1 \<rparr>"
  have "\<not> isLess s s" by (simp add: isLess_def isGreaterOrEqual_def)
  then have u: "updateACKAndSACK c1 q = (e, [])"
    using updateACKAndSACK_eq [OF refl refl refl refl, of c1 q] assms(2,4) g
    by (simp add: c1_def out_blocks_def)
  have new: "map_of (keyed now ps) s = None"
    using raw_run_bounds [of "unat l" ps "unat e"] g by (fastforce simp: keyed_def map_of_eq_None_iff word_less_nat_alt)
  define c2 where "c2 = c1\<lparr> lastAckNumber := e, tcpOptions := (tcpOptions c1)\<lparr> outSACKOption := \<lparr> blocks = [] \<rparr> \<rparr>,
      revPacketCache := Some (keyed now (ps @ [q])) \<rparr>"
  have srt: "sorted (map SequenceNumber (q # ps))" "distinct (map SequenceNumber (q # ps))"
    using raw_run_sorted [OF run] by blast+
  have ordr: "getPacketsInAscendingOrder (Some (keyed now ps @ [(SequenceNumber q, NewReceivedPacket now q)]))
      = map (NewReceivedPacket now) (q # ps)"
  proof -
    have "sort_key (\<lambda>p. SequenceNumber (Packet p)) (map (NewReceivedPacket now) (ps @ [q])) = map (NewReceivedPacket now) (q # ps)"
      by (rule sort_key_distinct) (use srt in \<open>simp_all add: comp_def\<close>)
    then show ?thesis by (simp add: getPacketsInAscendingOrder_def)
  qed
  have tw: "takeWhile (\<lambda>p. SequenceNumber p < e) (q # ps) = q # ps"
    using raw_run_bounds [OF run] by (simp add: word_less_nat_alt)
  let ?keys = "map SequenceNumber (q # ps)"
  have dk: "distinct (map fst (keyed now (ps @ [q])))" using srt(2) by auto
  have found: "GetPacket (SequenceNumber p) (Some (keyed now (ps @ [q]))) = Some (NewReceivedPacket now p)"
    if "p \<in> set (q # ps)" for p
  proof -
    have "(SequenceNumber p, NewReceivedPacket now p) \<in> set (keyed now (ps @ [q]))"
      using that by (auto simp: keyed_def)
    then show ?thesis using map_of_is_SomeI [OF dk] by (simp del: keyed_simps)
  qed
  define f where "f = (\<lambda>k. the (GetPacket k (Some (keyed now (ps @ [q])))))"
  have mok: "map_ok (revPacketCache c2)" using dk by (auto simp: c2_def map_ok_def simp del: keyed_simps)
  have dl: "deliver ?keys c2 = Return (c2\<lparr> readChannel := readChannel c2 @ map (\<lambda>k. Packet (f k)) ?keys,
      revPacketCache := fold RemovePacket ?keys (revPacketCache c2) \<rparr>)"
    by (rule deliver_all [OF mok srt(2)]) (use found in \<open>auto simp: f_def c2_def simp del: keyed_simps\<close>)
  have chans: "map (\<lambda>k. Packet (f k)) ?keys = q # ps"
    using found by (auto simp: f_def comp_def intro!: map_idI simp del: keyed_simps GetPacket_Some)
  have empty: "fold RemovePacket ?keys (revPacketCache c2) = Some []"
  proof (rule map_ok_empty)
    show "map_ok (fold RemovePacket ?keys (revPacketCache c2))" using gap.removed_all [OF mok] by blast
    have eq: "(\<lambda>k. GetPacket k (fold RemovePacket ?keys (revPacketCache c2))) = (\<lambda>k. GetPacket k (revPacketCache c2)) |` (- set ?keys)"
      using gap.removed_all [OF mok] by blast
    have none: "GetPacket k (revPacketCache c2) = None" if "k \<notin> set ?keys" for k
      using that by (auto simp: c2_def keyed_def map_of_eq_None_iff simp del: keyed_simps)
    show "\<forall>k. GetPacket k (fold RemovePacket ?keys (revPacketCache c2)) = None"
    proof
      fix k
      show "GetPacket k (fold RemovePacket ?keys (revPacketCache c2)) = None"
        using fun_cong [OF eq, of k] none [of k] by (simp only: restrict_map_def) (metis Compl_iff)
    qed
  qed
  define c3 where "c3 = c2\<lparr> readChannel := readChannel c2 @ q # ps, revPacketCache := Some [] \<rparr>"
  have "handleDataPacket now q c = go_bind (deliver ?keys c2) (\<lambda>c4. Return (acknowledge c4))"
    by (subst handle_sack_mode [where qs = "q # ps", OF _ _ _ _ _ u [unfolded c1_def] ordr])
      (use assms(2) g new tw in \<open>simp_all add: c2_def c1_def\<close>)
  also have "\<dots> = Return (acknowledge c3)"
    by (simp only: dl [unfolded chans empty] go_bind.simps c3_def)
  finally have "handleDataPacket now q c = Return (acknowledge c3)" .
  moreover obtain a where "acknowledge c3 = c3\<lparr> outputChan := outputChan c3 @ [a] \<rparr>"
    using acknowledge_eq [of c3] by blast
  ultimately show ?thesis
    using g by (auto simp: nothing_cached_def c3_def c2_def c1_def sack_mode_def out_blocks_def)
qed

lemma gap_opens:
  assumes "sack_mode c" "nothing_cached c" "lastAckNumber c = s" "SequenceNumber q = l" "Payload q \<noteq> []"
    and "s < l" "unat l + length (Payload q) < 4294967296" "unat l + length (Payload q) - unat s < 2147483648"
  shows "\<exists>c'. handleDataPacket now q c = Return c' \<and> gap_state now s l [q] (l + word_of_nat (length (Payload q))) c'
    \<and> readChannel c' = readChannel c"
proof -
  define e where "e = l + word_of_nat (length (Payload q))"
  have ue: "unat e = unat l + length (Payload q)" unfolding e_def by (rule unat_end [OF assms(7)])
  have n: "revPacketCache c = Some []" "out_blocks c = []" "0 \<le> MaxResendCount (config c) * ResendInterval (config c)"
    using assms(1,2) by (simp_all add: nothing_cached_def)
  have sl: "unat s < unat l" using assms(6) by (simp add: word_less_nat_alt)
  have "seq_dist l s < 2147483648" using raw_dist [of s l] sl assms(8) by (simp add: word_le_nat_alt)
  then have nl: "\<not> isLess l s" using window_order(2) [of l s s] by simp
  define c1 where "c1 = c\<lparr> rxCount := rxCount c + 1 \<rparr>"
  have "updateACKAndSACK c1 q = (s, [\<lparr> leftEdge = l, rightEdge = e \<rparr>])"
    using updateACKAndSACK_eq [OF refl refl refl refl, of c1 q] assms(3,4,6) n nl
    by (auto simp: c1_def out_blocks_def e_def sack_scan.simps)
  note u = this [unfolded c1_def]
  have ordr: "getPacketsInAscendingOrder (Some ([] @ [(SequenceNumber q, NewReceivedPacket now q)])) = map (NewReceivedPacket now) [q]"
    by (simp add: getPacketsInAscendingOrder_def)
  define c3 where "c3 = c1\<lparr> lastAckNumber := s,
      tcpOptions := (tcpOptions c1)\<lparr> outSACKOption := \<lparr> blocks = [\<lparr> leftEdge = l, rightEdge = e \<rparr>] \<rparr> \<rparr>,
      revPacketCache := Some (keyed now [q]) \<rparr>"
  have "handleDataPacket now q c = Return (acknowledge c3)"
  proof (subst handle_sack_mode [where qs = "[q]", OF _ _ _ _ _ u ordr])
    show "\<not> SequenceNumber q < lastAckNumber c" using assms(3,4,6) by simp
  qed (use assms(1,3,4,6) n in \<open>simp_all add: c3_def c1_def\<close>)
  moreover obtain a where "acknowledge c3 = c3\<lparr> outputChan := outputChan c3 @ [a] \<rparr>"
    using acknowledge_eq [of c3] by blast
  ultimately show ?thesis
    using assms(1,4-6,8) n ue
    by (auto simp: gap_state_def c3_def c1_def sack_mode_def out_blocks_def e_def [symmetric])
qed

section \<open>Sequences of segments\<close>

fun handle_all :: "int \<Rightarrow> packet list \<Rightarrow> connection \<Rightarrow> connection go" where
  \<comment> \<open>the segments handled one after the other\<close>
  "handle_all now [] c = Return c"
| "handle_all now (p # ps) c = go_bind (handleDataPacket now p c) (handle_all now ps)"

lemma segment_lengths:
  assumes "carries s (p # ps) b"
  shows "0 < length (Payload p)" "length (Payload p) \<le> length b"
proof -
  have "length (take (length (Payload p)) b) = length (Payload p)" using assms by simp
  then show "length (Payload p) \<le> length b" by simp
qed (use assms in simp)

lemma word_of_nat_split: "n \<le> m \<Longrightarrow> (word_of_nat n + word_of_nat (m - n) :: u32) = word_of_nat m"
  by (simp flip: of_nat_add)

lemma in_order_stream:
  assumes "nothing_cached c" "carries (lastAckNumber c) ps b" "unat (lastAckNumber c) + length b < 4294967296"
  shows "\<exists>c'. handle_all now ps c = Return c' \<and> nothing_cached c' \<and> readChannel c' = readChannel c @ ps
    \<and> lastAckNumber c' = lastAckNumber c + word_of_nat (length b)
    \<and> (ps \<noteq> [] \<longrightarrow> AcknowledgmentNum (last (outputChan c')) = lastAckNumber c')"
  using assms
proof (induction ps arbitrary: c b)
  case (Cons p ps)
  let ?n = "length (Payload p)"
  note lens = segment_lengths [OF Cons.prems(2)]
  obtain c1 a where c1: "handleDataPacket now p c = Return c1" "nothing_cached c1" "readChannel c1 = readChannel c @ [p]"
    "lastAckNumber c1 = lastAckNumber c + word_of_nat ?n" "outputChan c1 = outputChan c @ [a]" "AcknowledgmentNum a = lastAckNumber c1"
    using in_order_segment [OF Cons.prems(1), of p now] Cons.prems(2,3) lens by auto
  have u: "unat (lastAckNumber c1) = unat (lastAckNumber c) + ?n"
    unfolding c1(4) by (rule unat_end) (use Cons.prems(3) lens in simp)
  have "carries (lastAckNumber c1) ps (drop ?n b)" using Cons.prems(2) c1(4) by simp
  moreover have "unat (lastAckNumber c1) + length (drop ?n b) < 4294967296" using Cons.prems(3) lens u by simp
  ultimately obtain c' where c': "handle_all now ps c1 = Return c'" "nothing_cached c'" "readChannel c' = readChannel c1 @ ps"
    "lastAckNumber c' = lastAckNumber c1 + word_of_nat (length (drop ?n b))"
    "ps \<noteq> [] \<longrightarrow> AcknowledgmentNum (last (outputChan c')) = lastAckNumber c'"
    using Cons.IH [OF c1(2)] by blast
  have "lastAckNumber c' = lastAckNumber c + word_of_nat (length b)"
    using c'(4) c1(4) word_of_nat_split [OF lens(2)] by (simp add: add.assoc)
  then show ?case using c1 c' by (cases ps) auto
qed simp

lemma gap_stream:
  assumes "gap_state now s l ps e c" "carries e qs b" "unat e + length b < 4294967296"
    and "unat e + length b - unat s < 2147483648"
  shows "\<exists>c'. handle_all now qs c = Return c' \<and> gap_state now s l (ps @ qs) (e + word_of_nat (length b)) c'
    \<and> readChannel c' = readChannel c"
  using assms
proof (induction qs arbitrary: c ps e b)
  case (Cons q qs)
  let ?n = "length (Payload q)"
  note lens = segment_lengths [OF Cons.prems(2)]
  obtain c1 where c1: "handleDataPacket now q c = Return c1" "gap_state now s l (ps @ [q]) (e + word_of_nat ?n) c1"
    "readChannel c1 = readChannel c"
  proof -
    have "unat e + ?n < 4294967296" "unat e + ?n - unat s < 2147483648"
      using Cons.prems(3,4) lens by linarith+
    then show ?thesis using gap_grows [OF Cons.prems(1), of q] Cons.prems(2) that by auto
  qed
  have u: "unat (e + word_of_nat ?n) = unat e + ?n"
    by (rule unat_end) (use Cons.prems(3) lens in simp)
  obtain c' where "handle_all now qs c1 = Return c'"
    "gap_state now s l ((ps @ [q]) @ qs) (e + word_of_nat ?n + word_of_nat (length (drop ?n b))) c'"
    "readChannel c' = readChannel c1"
    using Cons.IH [OF c1(2), of "drop ?n b"] Cons.prems(2-4) lens u by auto
  then show ?case using c1 word_of_nat_split [OF lens(2)] by (simp add: add.assoc)
qed simp

section \<open>Properties\<close>

text \<open>
  \<open>Write\<close> cuts its buffer into segments of at most the negotiated MSS that carry the bytes in
  order and without gaps from the next sequence number on, all acknowledging what was received
  so far; it returns the full length and leaves the next sequence number just after the bytes.
  Fuel beyond the length of the buffer is enough.
\<close>

theorem write_sends_segments:
  assumes "\<not> isClosed c" "\<not> writeOnHold c" "0 < unat (mss (tcpOptions c))"
    and "pool_gives (length buffer) (rpool c)" "length buffer < fuel"
  shows "\<exists>ps c'. Write fuel buffer c = Some ((length buffer, None), c')
    \<and> outputChan c' = outputChan c @ ps \<and> carries (nextSequenceNumber c) ps buffer
    \<and> (\<forall>p \<in> set ps. length (Payload p) \<le> unat (mss (tcpOptions c)) \<and> AcknowledgmentNum p = lastAckNumber c)
    \<and> nextSequenceNumber c' = SeqIncrementBy (nextSequenceNumber c) (word_of_nat (length buffer))
    \<and> txCount c' = txCount c + 1"
proof -
  let ?c = "c\<lparr> txCount := txCount c + 1 \<rparr>"
  obtain ps rp where "write_loop fuel buffer 0 ?c = Some ((0 + length buffer, None),
      ?c\<lparr> nextSequenceNumber := nextSequenceNumber ?c + word_of_nat (length buffer),
         outputChan := outputChan ?c @ ps, rpool := rp \<rparr>)"
    "carries (nextSequenceNumber c) ps buffer"
    "\<forall>p \<in> set ps. length (Payload p) \<le> unat (mss (tcpOptions c)) \<and> AcknowledgmentNum p = lastAckNumber c"
    using write_loop_sends [of ?c buffer fuel 0] assms(3-5) by auto
  then show ?thesis using assms(1,2) by (simp add: Write_def)
qed

definition live_conn :: connection where
  "live_conn = (sample_conn [])\<lparr> rpool := \<lparr> answers = replicate 5 (Some sample_element), returned = [] \<rparr> \<rparr>"

lemma live_conn_simps [simp]:
  "isClosed live_conn = False" "writeOnHold live_conn = False" "mss (tcpOptions live_conn) = 1400"
  "nextSequenceNumber live_conn = 1" "lastAckNumber live_conn = 100" "outputChan live_conn = []"
  "readChannel live_conn = []" "txCount live_conn = 0"
  by (simp_all add: live_conn_def sample_conn_def zero_options_def)

lemma live_pool: "n \<le> 5 \<Longrightarrow> pool_gives n (rpool live_conn)"
  by (auto simp: live_conn_def pool_gives_def sample_element_def)

theorem write_sends_segments_witness:
  "\<exists>ps c'. Write 4 [1, 2, 3] live_conn = Some ((3, None), c') \<and> carries 1 ps [1, 2, 3]"
proof -
  have "pool_gives (length [1, 2, 3 :: u8]) (rpool live_conn)" by (rule live_pool) simp
  then show ?thesis using write_sends_segments [of live_conn "[1, 2, 3]" 4] by auto
qed

text \<open>
  When the peer announced no MSS, the connection's is set to 0 and \<open>Write\<close> of anything never
  returns: it sends empty segments for ever.
\<close>

theorem write_mss_zero_never_returns:
  assumes "\<not> isClosed c" "\<not> writeOnHold c" "mss (tcpOptions c) = 0" "buffer \<noteq> []"
  shows "Write fuel buffer c = None"
  using assms write_loop_mss_0 [of "c\<lparr> txCount := txCount c + 1 \<rparr>"] by (simp add: Write_def)

theorem write_mss_zero_never_returns_witness:
  "\<forall>fuel. Write fuel [1] (live_conn\<lparr> tcpOptions := zero_options \<rparr>) = None"
  using write_mss_zero_never_returns [of "live_conn\<lparr> tcpOptions := zero_options \<rparr>" "[1]"] by (simp add: zero_options_def)

text \<open>
  C1. What one side writes the other side's reader gets: the segments of a \<open>Write\<close>, handled in
  order by a peer that expects their first number and holds nothing behind a gap, put exactly
  the written bytes in its read channel, and its last acknowledgement is the writer's next
  sequence number, with and without retransmission (while the raw numbers do not wrap).
\<close>

theorem written_bytes_arrive:
  assumes "\<not> isClosed c" "\<not> writeOnHold c" "0 < unat (mss (tcpOptions c))"
    and "pool_gives (length buffer) (rpool c)" "length buffer < fuel"
    and "nothing_cached peer" "lastAckNumber peer = nextSequenceNumber c" "buffer \<noteq> []"
    and "unat (nextSequenceNumber c) + length buffer < 4294967296"
  shows "\<exists>ps c' peer'. Write fuel buffer c = Some ((length buffer, None), c')
    \<and> outputChan c' = outputChan c @ ps \<and> handle_all now ps peer = Return peer'
    \<and> readChannel peer' = readChannel peer @ ps \<and> concat (map Payload ps) = buffer
    \<and> AcknowledgmentNum (last (outputChan peer')) = nextSequenceNumber c'"
proof -
  let ?c = "c\<lparr> txCount := txCount c + 1 \<rparr>"
  obtain ps rp where w: "write_loop fuel buffer 0 ?c = Some ((0 + length buffer, None),
      ?c\<lparr> nextSequenceNumber := nextSequenceNumber ?c + word_of_nat (length buffer),
         outputChan := outputChan ?c @ ps, rpool := rp \<rparr>)" "carries (nextSequenceNumber c) ps buffer"
    using write_loop_sends [of ?c buffer fuel 0] assms(3-5) by auto
  have ne: "ps \<noteq> []" using w(2) assms(8) by auto
  obtain peer' where "handle_all now ps peer = Return peer'" "readChannel peer' = readChannel peer @ ps"
    "lastAckNumber peer' = nextSequenceNumber c + word_of_nat (length buffer)"
    "AcknowledgmentNum (last (outputChan peer')) = lastAckNumber peer'"
    using in_order_stream [OF assms(6), of ps buffer now] w(2) assms(7,9) ne by auto
  then show ?thesis using assms(1,2) w carries_concat [OF w(2)] by (simp add: Write_def)
qed

lemma live_nothing_cached: "nothing_cached (live_conn\<lparr> lastAckNumber := s \<rparr>)"
  by (simp add: nothing_cached_def live_conn_def sample_conn_def out_blocks_def DefaultConnectionConfig_def zero_options_def)

theorem written_bytes_arrive_witness:
  "\<exists>ps c' peer'. Write 4 [1, 2, 3] live_conn = Some ((3, None), c')
    \<and> handle_all 0 ps (live_conn\<lparr> lastAckNumber := 1 \<rparr>) = Return peer' \<and> concat (map Payload (readChannel peer')) = [1, 2, 3]"
proof -
  have "pool_gives (length [1, 2, 3 :: u8]) (rpool live_conn)" by (rule live_pool) simp
  then show ?thesis
    using written_bytes_arrive [of live_conn "[1, 2, 3]" 4 "live_conn\<lparr> lastAckNumber := 1 \<rparr>" 0]
      live_nothing_cached [of 1] by fastforce
qed



text \<open>
  Segments are compared with the acknowledged number as plain integers, so after the sequence
  numbers wrap a new segment looks old: a segment ahead in the window whose raw number is
  smaller is discarded, neither delivered nor acknowledged.
\<close>

theorem wrapped_segment_discarded:
  assumes "isGreater (SequenceNumber p) (lastAckNumber c)" "SequenceNumber p < lastAckNumber c"
  shows "\<exists>c'. handleDataPacket now p c = Return c' \<and> readChannel c' = readChannel c
    \<and> outputChan c' = outputChan c \<and> lastAckNumber c' = lastAckNumber c
    \<and> revPacketCache c' = revPacketCache c \<and> rxOooCount c' = rxOooCount c + 1"
  using assms(2) by (simp add: handleDataPacket_def return_chunk_of_def)

theorem wrapped_segment_discarded_witness:
  "\<exists>c'. handleDataPacket 0 (data_packet 5 [1]) (live_conn\<lparr> lastAckNumber := 4294967290 \<rparr>) = Return c' \<and> readChannel c' = []"
  using wrapped_segment_discarded [of "data_packet 5 [1]" "live_conn\<lparr> lastAckNumber := 4294967290 \<rparr>" 0]
  by (auto simp: isGreater_dist seq_dist_def)

text \<open>
  C34. In SACK mode the very next segment, when it runs over the end of the sequence space, is
  acknowledged in full but not delivered: it stays in the cache, above the new raw number.
\<close>

theorem wrapping_segment_acknowledged_not_delivered:
  assumes "sack_mode c" "nothing_cached c" "SequenceNumber p = lastAckNumber c" "Payload p \<noteq> []"
    and "\<not> lastAckNumber c < lastAckNumber c + word_of_nat (length (Payload p))"
  shows "\<exists>c' a. handleDataPacket now p c = Return c' \<and> readChannel c' = readChannel c
    \<and> revPacketCache c' = Some [(SequenceNumber p, NewReceivedPacket now p)]
    \<and> outputChan c' = outputChan c @ [a]
    \<and> AcknowledgmentNum a = lastAckNumber c + word_of_nat (length (Payload p))"
proof -
  let ?s = "lastAckNumber c"
  define c1 where "c1 = c\<lparr> rxCount := rxCount c + 1 \<rparr>"
  have n: "revPacketCache c = Some []" "out_blocks c = []" "0 \<le> MaxResendCount (config c) * ResendInterval (config c)"
    using assms(1,2) by (simp_all add: nothing_cached_def)
  have "\<not> isLess ?s ?s" by (simp add: isLess_def isGreaterOrEqual_def)
  then have "updateACKAndSACK c1 p = (?s + word_of_nat (length (Payload p)), [])"
    using updateACKAndSACK_eq [OF refl refl refl refl, of c1 p] assms(3) n by (simp add: c1_def out_blocks_def)
  note u = this [unfolded c1_def]
  have ordr: "getPacketsInAscendingOrder (Some ([] @ [(SequenceNumber p, NewReceivedPacket now p)])) = map (NewReceivedPacket now) [p]"
    by (simp add: getPacketsInAscendingOrder_def)
  define c3 where "c3 = c1\<lparr> lastAckNumber := ?s + word_of_nat (length (Payload p)),
      tcpOptions := (tcpOptions c1)\<lparr> outSACKOption := \<lparr> blocks = [] \<rparr> \<rparr>,
      revPacketCache := Some [(SequenceNumber p, NewReceivedPacket now p)] \<rparr>"
  have "handleDataPacket now p c = Return (acknowledge c3)"
    by (subst handle_sack_mode [where qs = "[p]", OF _ _ _ _ _ u ordr])
      (use assms(1,3,5) n in \<open>simp_all add: c3_def c1_def\<close>)
  moreover obtain a where "acknowledge c3 = c3\<lparr> outputChan := outputChan c3 @ [a] \<rparr>"
    "AcknowledgmentNum a = lastAckNumber c3" using acknowledge_eq [of c3] by blast
  ultimately show ?thesis by (simp add: c3_def c1_def)
qed

theorem wrapping_segment_acknowledged_not_delivered_witness:
  "\<exists>c'. handleDataPacket 0 (data_packet 4294967295 [1, 2]) (live_conn\<lparr> lastAckNumber := 4294967295 \<rparr>) = Return c'
    \<and> readChannel c' = []"
proof -
  have "sack_mode (live_conn\<lparr> lastAckNumber := 4294967295 \<rparr>)"
    by (simp add: sack_mode_def live_conn_def sample_conn_def DefaultConnectionConfig_def)
  then show ?thesis
    using wrapping_segment_acknowledged_not_delivered [OF _ live_nothing_cached [of 4294967295],
        of "data_packet 4294967295 [1, 2]" 0] by auto
qed

text \<open>
  \<open>Read\<close> takes the next packet off the read channel in every case: a large enough buffer gets
  exactly its payload, and in a shorter one nothing is stored, an error is returned and the
  payload is gone. Either way the packet's chunk goes back to the pool once.
\<close>

theorem read_consumes_next:
  assumes "\<not> isClosed c" "readChannel c = p # rest" "readDeadline c = None \<or> readDeadline c = Some t \<and> now < t"
  shows "\<exists>c'. readChannel c' = rest
    \<and> returned (rpool c') = returned (rpool c) @ (case chunk p of None \<Rightarrow> [] | Some e \<Rightarrow> [elem_id e])
    \<and> Read now buffer c = Some
        (if length (Payload p) \<le> length buffer
         then ((length (Payload p), None), Payload p @ drop (length (Payload p)) buffer, c')
         else ((0, Some (ReadBufferTooShort (length buffer) (length (Payload p)))), buffer, c'))"
  by (rule exI [of _ "return_chunk_of p (c\<lparr> readChannel := rest \<rparr>)"])
    (use assms in \<open>auto simp: Read_def pcpRead_def return_chunk_of_def ReturnChunk_def ReturnElement_def
      copy_at_0 Let_def split: option.split\<close>)

theorem read_consumes_next_witness:
  "\<exists>c'. Read 0 [9, 9, 9] (live_conn\<lparr> readChannel := [data_packet 100 [1, 2]] \<rparr>) = Some ((2, None), [1, 2, 9], c')"
  using read_consumes_next [of "live_conn\<lparr> readChannel := [data_packet 100 [1, 2]] \<rparr>" "data_packet 100 [1, 2]" "[]" 0 0 "[9, 9, 9]"]
  by (auto simp: live_conn_def sample_conn_def)

end
