(* ===== verification/Conn_Signal.thy ===== *)
theory Conn_Signal
  imports Conn_Data
begin

text \<open>
  The control path of \<open>lib/connection.go\<close>: the signalling packets of the two handshakes, the
  timers, keepalive, \<open>handle3WayHandshake\<close>, \<open>handleIncomingPackets\<close>, \<open>Close\<close> and
  \<open>clearConnResource\<close>. A goroutine that selects on a channel is a function of the event it
  receives. A timer's callback is the function named after the timer with \<open>fired\<close>. The signalling
  channel exists (\<open>Some\<close>) in every connection the program makes.
\<close>

named_theorems ctl_simps

section \<open>The code: signalling packets\<close>

definition signal_packet :: "u32 \<Rightarrow> u32 \<Rightarrow> u8 \<Rightarrow> connection \<Rightarrow> packet" where
  \<comment> \<open>\<open>NewPcpPacket\<close> without payload, which never fails\<close>
  "signal_packet seqNum ackNum flags c =
     (case NewPcpPacket seqNum ackNum flags [] c of (Some p, _) \<Rightarrow> p | (None, _) \<Rightarrow> zero_packet)"

definition send_signal :: "packet \<Rightarrow> connection \<Rightarrow> connection" where
  "send_signal p c = c\<lparr> sigOutputChan := map_option (\<lambda>sent. sent @ [p]) (sigOutputChan c) \<rparr>"

definition initSendSyn :: "connection \<Rightarrow> connection" where
  "initSendSyn c =
     (send_signal ((signal_packet (initialSeq c) 0 SYNFlag c)\<lparr> IsOpenConnection := False \<rparr>) c)
       \<lparr> initClientState := SynSent \<rparr>"

definition initSendSynAck :: "connection \<Rightarrow> connection" where
  "initSendSynAck c =
     (send_signal ((signal_packet (initialSeq c) (SeqIncrement (initialPeerSeq c)) (SYNFlag OR ACKFlag) c)
        \<lparr> IsOpenConnection := False \<rparr>) c)\<lparr> initServerState := SynAckSent \<rparr>"

definition initSendAck :: "connection \<Rightarrow> connection" where
  "initSendAck c =
     (send_signal ((signal_packet (SeqIncrement (initialSeq c)) (SeqIncrement (initialPeerSeq c)) ACKFlag c)
        \<lparr> IsOpenConnection := False \<rparr>) c)\<lparr> initClientState := AckSent \<rparr>"

definition termCallerSendFin :: "connection \<Rightarrow> connection" where
  "termCallerSendFin c =
     (let finPacket = signal_packet (termStartSeq c) (termStartPeerSeq c) (FINFlag OR ACKFlag) c in
      if sigOutputChan c \<noteq> None
      then (send_signal finPacket c)\<lparr> terminationCallerState := CallerFinSent \<rparr> else c)"

definition termCallerSendAck :: "connection \<Rightarrow> connection" where
  "termCallerSendAck c =
     (let ackPacket = signal_packet (termStartSeq c + 1) (termStartPeerSeq c + 1) ACKFlag c in
      if sigOutputChan c \<noteq> None
      then (send_signal ackPacket c)\<lparr> terminationCallerState := CallerAckSent \<rparr> else c)"

definition termRespSendFinAck :: "connection \<Rightarrow> connection" where
  "termRespSendFinAck c =
     (let ackPacket = signal_packet (termStartSeq c) (termStartPeerSeq c) (FINFlag OR ACKFlag) c in
      if sigOutputChan c \<noteq> None
      then (send_signal ackPacket c)\<lparr> terminationRespState := RespFinAckSent \<rparr> else c)"

section \<open>The code: timers\<close>

definition startConnSignalTimer :: "connection \<Rightarrow> connection" where
  "startConnSignalTimer c =
     c\<lparr> connSignalTimer := Some (AfterFunc (time_Second * ConnSignalRetryInterval (config c))) \<rparr>"

definition stopConnSignalTimer :: "connection \<Rightarrow> connection go" where
  "stopConnSignalTimer c =
     (case connSignalTimer c of None \<Rightarrow> Panic
      | Some t \<Rightarrow> Return (c\<lparr> connSignalTimer := Some (timer_Stop t) \<rparr>))"

definition resend_signal :: "connection \<Rightarrow> connection" where
  "resend_signal c =
     (if initClientState c = SynSent then initSendSyn c
      else if initServerState c = SynAckSent then initSendSynAck c
      else if terminationCallerState c = CallerFinSent then termCallerSendFin c
      else if terminationRespState c = RespFinAckSent then termRespSendFinAck c
      else c)"

definition connSignalTimer_fired :: "connection \<Rightarrow> connection go" where
  "connSignalTimer_fired c0 =
     (let c = c0\<lparr> connSignalRetryCount := connSignalRetryCount c0 + 1 \<rparr> in
      if connSignalRetryCount c \<ge> ConnSignalRetry (config c)
      then go_bind (stopConnSignalTimer c) (\<lambda>c1.
        let c2 = c1\<lparr> connSignalRetryCount := 0, isConnSignalFailedAlreadyClosed := True \<rparr>
        in if connSignalFailedClosed c2 then Panic
           else Return (c2\<lparr> connSignalFailedClosed := True \<rparr>))
      else Return (startConnSignalTimer (resend_signal c)))"

definition startResendTimer :: "connection \<Rightarrow> connection" where
  "startResendTimer c = c\<lparr> resendTimer := Some (AfterFunc (resendInterval c)) \<rparr>"

definition resendTimer_fired :: "int \<Rightarrow> connection \<Rightarrow> connection go" where
  "resendTimer_fired now c =
     (case resendTimer c of None \<Rightarrow> Return c
      | Some t \<Rightarrow>
          go_bind (resendLostPackets now (c\<lparr> resendTimer := Some (timer_Stop t) \<rparr>))
            (\<lambda>c1. Return (startResendTimer c1)))"

section \<open>The code: end of a connection\<close>

definition return_chunks :: "packet list \<Rightarrow> ring_pool \<Rightarrow> ring_pool" where
  "return_chunks ps rp = fold (\<lambda>p rp. snd (ReturnChunk p rp)) ps rp"

definition sent_packets :: "PacketInfo seq_map \<Rightarrow> packet list" where
  "sent_packets m = (case m of None \<Rightarrow> [] | Some kvs \<Rightarrow> map (\<lambda>(k, info). pData info) kvs)"

definition cached_packets :: "ReceivedPacket seq_map \<Rightarrow> packet list" where
  "cached_packets m = (case m of None \<Rightarrow> [] | Some kvs \<Rightarrow> map (\<lambda>(k, r). Packet r) kvs)"

definition clearConnResource :: "connection \<Rightarrow> connection go" where
  "clearConnResource c =
     (if isClosed c then Return c
      else
        let c1 = c\<lparr> isClosed := True, keepaliveTimer := None, resendTimer := None, connSignalTimer := None \<rparr>
        in if closeSignalClosed c1 then Panic
           else
             let c2 = c1\<lparr> closeSignalClosed := True, readChannel := [],
                          connCloseSignals := connCloseSignals c1 + 1 \<rparr>
             in Return (if SackEnabled (tcpOptions c2)
                        then c2\<lparr> rpool := return_chunks (cached_packets (revPacketCache c2))
                                  (return_chunks (sent_packets (resendPackets c2)) (rpool c2)) \<rparr>
                        else c2))"

definition initTermination :: "connection \<Rightarrow> connection" where
  "initTermination c =
     (let c1 = c\<lparr> writeOnHold := True, termStartPeerSeq := lastAckNumber c \<rparr>;
          c2 = termCallerSendFin c1;
          c3 = c2\<lparr> nextSequenceNumber := SeqIncrement (nextSequenceNumber c2) \<rparr>
      in startConnSignalTimer c3)"

definition Close :: "connection \<Rightarrow> connection" where
  \<comment> \<open>up to the wait for the connection to be closed\<close>
  "Close c =
     (if isClosed c then c
      else if connCloseBegins c then c
      else initTermination (c\<lparr> connCloseBegins := True \<rparr>))"

definition Close_timed_out :: "connection \<Rightarrow> connection go" where
  "Close_timed_out c = (if \<not> isClosed c then clearConnResource c else Return c)"

section \<open>The code: keepalive\<close>

definition sendKeepalivePacket :: "bool \<Rightarrow> connection \<Rightarrow> connection" where
  \<comment> \<open>\<open>room\<close>: the output channel is not full\<close>
  "sendKeepalivePacket room c =
     (if isClosed c then c
      else case NewPcpPacket (nextSequenceNumber c - 1) (lastAckNumber c) ACKFlag [0] c of
          (None, c1) \<Rightarrow> c1
        | (Some keepalivePacket, c1) \<Rightarrow>
            let p = keepalivePacket\<lparr> IsKeepAliveMassege := True \<rparr>
            in if room then c1\<lparr> outputChan := outputChan c1 @ [p] \<rparr> else return_chunk_of p c1)"

definition keepaliveTimer_fired :: "bool \<Rightarrow> connection \<Rightarrow> connection go" where
  "keepaliveTimer_fired room c =
     (if isClosed c then Return c
      else if timeoutCount c = MaxKeepaliveAttempts (config c) then clearConnResource c
      else let c1 = sendKeepalivePacket room c
           in Return (startKeepaliveTimer
                (c1\<lparr> isKeepAliveInProgress := True, timeoutCount := timeoutCount c1 + 1 \<rparr>)))"

section \<open>The code: the server's side of the 3-way handshake\<close>

datatype handshake_event = SignalFailed | HandshakePacket packet

definition has_flag :: "packet \<Rightarrow> u8 \<Rightarrow> bool" where
  "has_flag p f \<longleftrightarrow> Flags p AND f \<noteq> 0"

definition handshake_done :: "packet \<Rightarrow> connection \<Rightarrow> connection go" where
  \<comment> \<open>after the retry timer is stopped\<close>
  "handshake_done packet c1 =
     (let c2 = c1\<lparr> newConnSignals := newConnSignals c1 + 1, initServerState := 0, isOpenConnection := True \<rparr>;
          c3 = (if windowScaleShiftCount (tcpOptions c2) > 0
                then c2\<lparr> windowSize := word_of_int (WindowSizeWithScale (config c2)) \<rparr> else c2)
      in go_bind (if timestampEnabled (tcpOptions c3)
                  then case TcpOptions packet of None \<Rightarrow> Panic
                    | Some opts \<Rightarrow> Return (c3\<lparr> tcpOptions := (tcpOptions c3)\<lparr> tsEchoReplyValue := timestamp opts \<rparr> \<rparr>)
                  else Return c3)
           (\<lambda>c4. Return (if SackEnabled (tcpOptions c4) \<and> RetransmissionEnabled (config c4)
                        then startResendTimer c4 else c4)))"

definition handle3WayHandshake :: "handshake_event \<Rightarrow> connection \<Rightarrow> (bool \<times> connection) go" where
  \<comment> \<open>one turn of the loop: whether the goroutine returns, and the connection\<close>
  "handle3WayHandshake ev c =
     (case ev of
        SignalFailed \<Rightarrow>
          (let c1 = c\<lparr> isClosed := True \<rparr>
           in case connSignalTimer c1 of None \<Rightarrow> Return (True, c1)
              | Some t \<Rightarrow> Return (True, c1\<lparr> connSignalTimer := None \<rparr>))
      | HandshakePacket packet \<Rightarrow>
          if \<not> has_flag packet SYNFlag \<and> has_flag packet ACKFlag
          then if initServerState c + 1 \<noteq> AckReceived then Return (False, c)
               else go_bind (stopConnSignalTimer c) (\<lambda>c1.
                 go_bind (handshake_done packet c1) (\<lambda>c2. Return (True, c2)))
          else Return (False, c))"

section \<open>The code: the connection's packet loop\<close>

datatype 'c loop = Continue 'c | StopAndClear 'c
  \<comment> \<open>\<open>StopAndClear\<close>: the goroutine returns after starting \<open>clearConnResource\<close>\<close>

definition reset_keepalive :: "connection \<Rightarrow> connection go" where
  "reset_keepalive c =
     (if KeepAliveEnabled (config c)
      then case keepaliveTimer c of None \<Rightarrow> Panic
        | Some t \<Rightarrow> Return (c\<lparr> keepaliveTimer := Some (AfterFunc (idleTimeout c)), timeoutCount := 0 \<rparr>)
      else Return c)"

definition note_packet :: "packet \<Rightarrow> connection \<Rightarrow> connection" where
  \<comment> \<open>the bookkeeping before the packet is dispatched\<close>
  "note_packet packet c =
     (let c1 = (if \<not> has_flag packet SYNFlag \<and> \<not> has_flag packet RSTFlag
           then let c' = c\<lparr> isBidirectional := True \<rparr>
                in if \<not> writeOnHold c' then c'\<lparr> connSignalTimer := map_option timer_Stop (connSignalTimer c') \<rparr> else c'
           else c);
          c2 = (case TcpOptions packet of
             Some opts \<Rightarrow> if timestampEnabled opts
               then c1\<lparr> tcpOptions := (tcpOptions c1)\<lparr> tsEchoReplyValue := timestamp opts \<rparr> \<rparr> else c1
           | None \<Rightarrow> c1)
      in if SackEnabled (tcpOptions c2) \<and> has_flag packet ACKFlag \<and> \<not> has_flag packet SYNFlag
           \<and> \<not> has_flag packet FINFlag \<and> \<not> has_flag packet RSTFlag
         then updateResendPacketsOnAck packet c2 else c2)"

definition handle_fin :: "packet \<Rightarrow> connection \<Rightarrow> connection loop go" where
  "handle_fin packet c =
     (if terminationCallerState c = CallerFinSent \<and> has_flag packet ACKFlag
         \<and> SequenceNumber packet = termStartPeerSeq c \<and> AcknowledgmentNum packet = termStartSeq c + 1
      then go_bind (stopConnSignalTimer c) (\<lambda>c1.
        Return (StopAndClear (termCallerSendAck (c1\<lparr> lastAckNumber := SeqIncrement (SequenceNumber packet) \<rparr>))))
      else if terminationRespState c = 0 \<and> terminationCallerState c = 0
      then let ack = SeqIncrement (SequenceNumber packet);
               c1 = c\<lparr> writeOnHold := True, terminationRespState := RespFinReceived, lastAckNumber := ack,
                       termStartSeq := AcknowledgmentNum packet, termStartPeerSeq := ack \<rparr>
           in Return (Continue (startConnSignalTimer (termRespSendFinAck c1)))
      else Return (Continue c))"

definition handle_ack :: "packet \<Rightarrow> connection \<Rightarrow> connection loop go" where
  "handle_ack packet c =
     (if terminationRespState c = RespFinAckSent \<and> SequenceNumber packet = termStartPeerSeq c
         \<and> AcknowledgmentNum packet = termStartSeq c + 1
      then go_bind (stopConnSignalTimer c) (\<lambda>c1.
        Return (StopAndClear (c1\<lparr> terminationRespState := RespAckReceived \<rparr>)))
      else Return (Continue c))"

definition handleIncomingPackets :: "int \<Rightarrow> packet \<Rightarrow> connection \<Rightarrow> connection loop go" where
  \<comment> \<open>one packet from the input channel\<close>
  "handleIncomingPackets now packet c0 =
     go_bind (reset_keepalive c0) (\<lambda>c'.
       let c = note_packet packet c' in
       if length (Payload packet) > 0
       then go_bind (handleDataPacket now packet c) (\<lambda>c1. Return (Continue c1))
       else if has_flag packet FINFlag then handle_fin packet c
       else if \<not> isServer (params c) \<and> has_flag packet SYNFlag \<and> \<not> isBidirectional c
       then Return (Continue
              (if has_flag packet ACKFlag \<and> SequenceNumber packet = initialPeerSeq c
                  \<and> AcknowledgmentNum packet = SeqIncrement (initialSeq c)
               then initSendAck c else c))
       else if has_flag packet ACKFlag then handle_ack packet c
       else Return (Continue c))"

section \<open>What the operations leave alone\<close>

text \<open>The control fields: the close flags, the retry and timeout counts, and the configuration.\<close>

definition ctl :: "connection \<Rightarrow> (bool \<times> bool \<times> int) \<times> (bool \<times> bool) \<times> int \<times> ConnectionConfig \<times> connectionParams" where
  "ctl c = ((closeSignalClosed c, isClosed c, connSignalRetryCount c),
     (connSignalFailedClosed c, isConnSignalFailedAlreadyClosed c), timeoutCount c, config c, params c)"

lemma signal_packet_fields [simp]:
  "SequenceNumber (signal_packet s a f c) = s" "AcknowledgmentNum (signal_packet s a f c) = a"
  "Flags (signal_packet s a f c) = f" "Payload (signal_packet s a f c) = []"
  "TcpOptions (signal_packet s a f c) = Some (tcpOptions c)"
  by (simp_all add: signal_packet_def NewPcpPacket_def zero_packet_def)

lemma ctl_signals [ctl_simps]:
  "ctl (send_signal p c) = ctl c" "ctl (initSendSyn c) = ctl c" "ctl (initSendSynAck c) = ctl c"
  "ctl (initSendAck c) = ctl c" "ctl (termCallerSendFin c) = ctl c" "ctl (termCallerSendAck c) = ctl c"
  "ctl (termRespSendFinAck c) = ctl c" "ctl (startConnSignalTimer c) = ctl c" "ctl (startResendTimer c) = ctl c"
  "ctl (startKeepaliveTimer c) = ctl c" "ctl (resend_signal c) = ctl c"
  by (simp_all add: ctl_def send_signal_def initSendSyn_def initSendSynAck_def initSendAck_def
      termCallerSendFin_def termCallerSendAck_def termRespSendFinAck_def startConnSignalTimer_def
      startResendTimer_def startKeepaliveTimer_def resend_signal_def Let_def)

lemma ctl_new_packet [ctl_simps]: "NewPcpPacket s a f d c = (p, c') \<Longrightarrow> ctl c' = ctl c"
  by (auto simp: NewPcpPacket_def Let_def ctl_def split: if_splits prod.splits option.splits)

lemma ctl_acknowledge [ctl_simps]: "ctl (acknowledge c) = ctl c"
  using acknowledge_eq [of c] by (auto simp: ctl_def)

lemma ctl_return_chunk [ctl_simps]: "ctl (return_chunk_of p c) = ctl c"
  by (simp add: return_chunk_of_def ctl_def)

lemma ctl_expire [ctl_simps]: "ctl (expire_scan now t ps later c) = ctl c"
  by (induction now t ps later c rule: expire_scan.induct)
    (auto simp: Let_def ctl_def trimOutSackOption_def)

lemma ctl_deliver [ctl_simps]: "deliver ks c = Return c' \<Longrightarrow> ctl c' = ctl c"
proof (induction ks arbitrary: c)
  case (Cons k ks)
  obtain r where "GetPacket k (revPacketCache c) = Some r"
    using Cons.prems by (cases "GetPacket k (revPacketCache c)") auto
  then show ?case
    using Cons.prems Cons.IH [of "c\<lparr> readChannel := readChannel c @ [Packet r],
        revPacketCache := RemovePacket k (revPacketCache c) \<rparr>"] by (simp add: ctl_def)
qed simp

lemma ctl_data [ctl_simps]: "handleDataPacket now p c = Return c' \<Longrightarrow> ctl c' = ctl c"
proof -
  assume a: "handleDataPacket now p c = Return c'"
  have b: "ctl (c\<lparr> rxCount := x, lastAckNumber := y, tcpOptions := o', revPacketCache := m \<rparr>) = ctl c" for x y o' m
    by (simp add: ctl_def)
  have d: "ctl (c\<lparr> rxCount := x, rxOooCount := y \<rparr>) = ctl c" "ctl (c\<lparr> rxCount := x \<rparr>) = ctl c"
    "ctl (c\<lparr> rxCount := x, lastAckNumber := z, readChannel := r \<rparr>) = ctl c"
    "ctl (c\<lparr> rxCount := x, readChannel := r \<rparr>) = ctl c" for x y z r
    by (simp_all add: ctl_def)
  show ?thesis
    using a by (auto simp: handleDataPacket_def Let_def go_simps ctl_simps b d
        split: if_splits option.splits prod.splits dest!: ctl_deliver)
qed

lemma ctl_stop_timer [ctl_simps]: "stopConnSignalTimer c = Return c' \<Longrightarrow> ctl c' = ctl c"
  by (auto simp: stopConnSignalTimer_def ctl_def split: option.splits)

lemma ctl_note [ctl_simps]: "ctl (note_packet p c) = ctl c"
  by (auto simp: note_packet_def ctl_def Let_def updateResendPacketsOnAck_def split: option.split prod.split)

lemma ctl_write_loop: "write_loop fuel b n c = Some (r, c') \<Longrightarrow> ctl c' = ctl c"
proof (induction fuel b n c rule: write_loop.induct)
  case (2 fuel b n c)
  define seg where "seg = (if length b > unat (mss (tcpOptions c)) then unat (mss (tcpOptions c)) else length b)"
  obtain p c1 where n: "NewPcpPacket (nextSequenceNumber c) (lastAckNumber c) ACKFlag (take seg b) c = (p, c1)"
    by fastforce
  have u: "ctl (c1\<lparr> nextSequenceNumber := x, outputChan := y \<rparr>) = ctl c" for x y
    using ctl_new_packet [OF n] by (simp add: ctl_def)
  show ?case
  proof (cases "length b > 0 \<and> p \<noteq> None")
    case True
    then obtain q where q: "p = Some q" by blast
    have "write_loop fuel (drop seg b) (n + seg) (c1\<lparr> nextSequenceNumber :=
        SeqIncrementBy (nextSequenceNumber c1) (word_of_nat seg), outputChan := outputChan c1 @ [q] \<rparr>) = Some (r, c')"
      using "2.prems" True n q unfolding seg_def by (simp add: Let_def)
    then show ?thesis
      using "2.IH" [OF _ seg_def n [symmetric] q] True u by simp
  next
    case False
    then show ?thesis
      using "2.prems" n ctl_new_packet [OF n] unfolding seg_def by (auto simp: Let_def split: if_splits)
  qed
qed simp

lemma ctl_resend_pass: "resend_pass now ks s = Return s' \<Longrightarrow> ctl (fst s') = ctl (fst s)"
proof (induction ks arbitrary: s)
  case (Cons k ks)
  obtain s1 where s1: "resend_one now k s = Return s1" "resend_pass now ks s1 = Return s'"
    using Cons.prems by (auto simp: go_simps)
  have dup: "ctl (c1\<lparr> outputChan := x, resendPackets := y \<rparr>) = ctl c1" for c1 x y by (simp add: ctl_def)
  have "ctl (fst s1) = ctl (fst s)"
    using s1(1) by (cases s) (auto simp: resend_one_def Duplicate_def go_simps dup
        split: option.splits if_splits dest!: ctl_new_packet)
  then show ?case using Cons.IH [OF s1(2)] by simp
qed simp

lemma ctl_resend_lost [ctl_simps]:
  assumes "resendLostPackets now c = Return c'"
  shows "ctl c' = ctl c"
proof (cases "isClosed c")
  case False
  then obtain c1 ks where p: "resend_pass now (GetPacketKeys (resendPackets c)) (c, []) = Return (c1, ks)"
    using assms by (auto simp: resendLostPackets_def go_simps)
  obtain m rp where "fold RemoveSentPacket ks (resendPackets c1, rpool c1) = (m, rp)" by fastforce
  then have "c' = c1\<lparr> resendPackets := m, rpool := rp \<rparr>"
    using assms False p by (simp add: resendLostPackets_def)
  then show ?thesis using ctl_resend_pass [OF p] by (simp add: ctl_def)
qed (use assms in \<open>simp add: resendLostPackets_def\<close>)

section \<open>Runs of a connection\<close>

text \<open>The events of a connection, in whatever order its goroutines and its user cause them.\<close>

inductive conn_step :: "connection \<Rightarrow> connection \<Rightarrow> bool" where
  incoming: "handleIncomingPackets now p c = Return (Continue c') \<Longrightarrow> conn_step c c'"
| incoming_last: "handleIncomingPackets now p c = Return (StopAndClear c') \<Longrightarrow> conn_step c c'"
| cleared: "clearConnResource c = Return c' \<Longrightarrow> conn_step c c'"
| handshake: "handle3WayHandshake ev c = Return (stop, c') \<Longrightarrow> conn_step c c'"
| signal_timer: "connSignalTimer_fired c = Return c' \<Longrightarrow> conn_step c c'"
| keepalive_timer: "keepaliveTimer_fired room c = Return c' \<Longrightarrow> conn_step c c'"
| resend_timer: "resendTimer_fired now c = Return c' \<Longrightarrow> conn_step c c'"
| user_close: "c' = Close c \<Longrightarrow> conn_step c c'"
| close_timeout: "Close_timed_out c = Return c' \<Longrightarrow> conn_step c c'"
| user_write: "Write fuel buffer c = Some (r, c') \<Longrightarrow> conn_step c c'"
| user_read: "Read now buffer c = Some (r, b, c') \<Longrightarrow> conn_step c c'"

definition conn_inv :: "connectionParams \<Rightarrow> ConnectionConfig \<Rightarrow> connection \<Rightarrow> bool" where
  "conn_inv ps cfg c \<longleftrightarrow> params c = ps \<and> config c = cfg \<and> (closeSignalClosed c \<longrightarrow> isClosed c)
     \<and> (connSignalFailedClosed c \<longrightarrow> isConnSignalFailedAlreadyClosed c)
     \<and> 0 \<le> connSignalRetryCount c \<and> connSignalRetryCount c < max 1 (ConnSignalRetry cfg)
     \<and> 0 \<le> timeoutCount c
     \<and> (0 \<le> MaxKeepaliveAttempts cfg \<longrightarrow> timeoutCount c \<le> MaxKeepaliveAttempts cfg)"

lemma conn_inv_ctl: "ctl c' = ctl c \<Longrightarrow> conn_inv ps cfg c \<Longrightarrow> conn_inv ps cfg c'"
  by (auto simp: ctl_def conn_inv_def)

lemma inv_incoming:
  assumes "conn_inv ps cfg c" "handleIncomingPackets now p c = Return l" "l = Continue c' \<or> l = StopAndClear c'"
  shows "conn_inv ps cfg c'"
proof -
  obtain c1 where c1: "reset_keepalive c = Return c1"
    using assms(2) by (auto simp: handleIncomingPackets_def go_simps)
  have "ctl (c\<lparr> keepaliveTimer := t, timeoutCount := 0 \<rparr>) = ctl (c\<lparr> timeoutCount := 0 \<rparr>)" for t
    by (simp add: ctl_def)
  then have "ctl c1 = ctl c \<or> ctl c1 = ctl (c\<lparr> timeoutCount := 0 \<rparr>)"
    using c1 by (auto simp: reset_keepalive_def split: if_splits option.splits)
  moreover have "conn_inv ps cfg (c\<lparr> timeoutCount := 0 \<rparr>)" using assms(1) by (auto simp: conn_inv_def)
  ultimately have i1: "conn_inv ps cfg c1" using assms(1) conn_inv_ctl by blast
  have upd: "ctl (c2\<lparr> lastAckNumber := x \<rparr>) = ctl c2" "ctl (c2\<lparr> terminationRespState := y \<rparr>) = ctl c2"
    "ctl (c2\<lparr> writeOnHold := w, terminationRespState := y, lastAckNumber := x, termStartSeq := u, termStartPeerSeq := v \<rparr>) = ctl c2"
    for c2 x y u v w by (simp_all add: ctl_def)
  have "ctl c' = ctl (note_packet p c1)"
    using assms(2,3) c1
    by (auto simp: handleIncomingPackets_def Let_def go_simps handle_fin_def handle_ack_def ctl_simps upd
        split: if_splits dest!: ctl_data ctl_stop_timer)
  then show ?thesis using i1 conn_inv_ctl by (simp add: ctl_simps)
qed

lemma inv_clear:
  assumes "conn_inv ps cfg c" "clearConnResource c = Return c'"
  shows "conn_inv ps cfg c'" "isClosed c'"
  using assms by (auto simp: clearConnResource_def conn_inv_def Let_def split: if_splits)

lemma clear_never_panics: "conn_inv ps cfg c \<Longrightarrow> \<exists>c'. clearConnResource c = Return c'"
  by (auto simp: clearConnResource_def conn_inv_def Let_def)

lemma inv_signal_timer:
  assumes "conn_inv ps cfg c" "connSignalTimer_fired c = Return c'"
  shows "conn_inv ps cfg c'"
proof (cases "ConnSignalRetry (config c) \<le> connSignalRetryCount c + 1")
  case True
  then obtain c1 where c1: "stopConnSignalTimer (c\<lparr> connSignalRetryCount := connSignalRetryCount c + 1 \<rparr>) = Return c1"
    using assms(2) by (auto simp: connSignalTimer_fired_def go_simps)
  have "ctl c1 = ctl (c\<lparr> connSignalRetryCount := connSignalRetryCount c + 1 \<rparr>)" by (rule ctl_stop_timer [OF c1])
  moreover have "c' = c1\<lparr> connSignalRetryCount := 0, isConnSignalFailedAlreadyClosed := True, connSignalFailedClosed := True \<rparr>"
    using assms(2) True c1 by (auto simp: connSignalTimer_fired_def split: if_splits)
  ultimately show ?thesis using assms(1) by (auto simp: conn_inv_def ctl_def)
next
  case False
  then have "ctl c' = ctl (c\<lparr> connSignalRetryCount := connSignalRetryCount c + 1 \<rparr>)"
    using assms(2) by (auto simp: connSignalTimer_fired_def ctl_simps)
  moreover have "conn_inv ps cfg (c\<lparr> connSignalRetryCount := connSignalRetryCount c + 1 \<rparr>)"
    using assms(1) False by (auto simp: conn_inv_def)
  ultimately show ?thesis by (rule conn_inv_ctl)
qed

lemma ctl_keepalive [ctl_simps]: "ctl (sendKeepalivePacket room c) = ctl c"
proof -
  obtain p c1 where n: "NewPcpPacket (nextSequenceNumber c - 1) (lastAckNumber c) ACKFlag [0] c = (p, c1)" by fastforce
  have "ctl (c1\<lparr> outputChan := x \<rparr>) = ctl c1" for x by (simp add: ctl_def)
  then show ?thesis using n ctl_new_packet [OF n]
    by (auto simp: sendKeepalivePacket_def Let_def ctl_return_chunk split: option.split)
qed

lemma inv_keepalive_timer:
  assumes "conn_inv ps cfg c" "keepaliveTimer_fired room c = Return c'"
  shows "conn_inv ps cfg c'"
proof (cases "isClosed c \<or> timeoutCount c = MaxKeepaliveAttempts (config c)")
  case True
  then have "c' = c \<or> clearConnResource c = Return c'"
    using assms(2) by (auto simp: keepaliveTimer_fired_def split: if_splits)
  then show ?thesis using assms(1) inv_clear(1) by blast
next
  case False
  define c1 where "c1 = sendKeepalivePacket room c"
  have k: "ctl c1 = ctl c" by (simp add: c1_def ctl_keepalive)
  have "ctl c' = ctl (c1\<lparr> isKeepAliveInProgress := True, timeoutCount := timeoutCount c1 + 1 \<rparr>)"
    using assms(2) False by (auto simp: keepaliveTimer_fired_def Let_def c1_def ctl_simps)
  moreover have "conn_inv ps cfg (c1\<lparr> isKeepAliveInProgress := True, timeoutCount := timeoutCount c1 + 1 \<rparr>)"
    using assms(1) False k by (auto simp: conn_inv_def ctl_def)
  ultimately show ?thesis by (rule conn_inv_ctl)
qed

lemma ctl_handshake_done:
  assumes "handshake_done p c = Return c'"
  shows "ctl c' = ctl c"
proof -
  define c2 where "c2 = c\<lparr> newConnSignals := newConnSignals c + 1, initServerState := 0, isOpenConnection := True \<rparr>"
  define c3 where "c3 = (if windowScaleShiftCount (tcpOptions c2) > 0
      then c2\<lparr> windowSize := word_of_int (WindowSizeWithScale (config c2)) \<rparr> else c2)"
  have "ctl c3 = ctl c" by (simp add: c3_def c2_def ctl_def)
  moreover have "ctl (c3\<lparr> tcpOptions := o' \<rparr>) = ctl c3" for o' by (simp add: ctl_def)
  ultimately show ?thesis
    using assms unfolding handshake_done_def Let_def c2_def [symmetric] c3_def [symmetric]
    by (cases "TcpOptions p") (auto simp: ctl_simps split: if_splits)
qed

lemma inv_handshake:
  assumes "conn_inv ps cfg c" "handle3WayHandshake ev c = Return (stop, c')"
  shows "conn_inv ps cfg c'"
proof (cases ev)
  case SignalFailed
  have "conn_inv ps cfg (c\<lparr> isClosed := True \<rparr>)" "conn_inv ps cfg (c\<lparr> isClosed := True, connSignalTimer := None \<rparr>)"
    using assms(1) by (auto simp: conn_inv_def)
  then show ?thesis using assms(2) SignalFailed
    by (auto simp: handle3WayHandshake_def Let_def split: option.splits)
next
  case (HandshakePacket p)
  then have "ctl c' = ctl c"
    using assms(2) by (auto simp: handle3WayHandshake_def go_simps split: if_splits
        dest!: ctl_stop_timer ctl_handshake_done)
  then show ?thesis using assms(1) conn_inv_ctl by blast
qed

lemma inv_close: "conn_inv ps cfg c \<Longrightarrow> conn_inv ps cfg (Close c)"
proof -
  assume i: "conn_inv ps cfg c"
  have upd: "ctl (c2\<lparr> nextSequenceNumber := x \<rparr>) = ctl c2"
    "ctl (c2\<lparr> connCloseBegins := True, writeOnHold := True, termStartPeerSeq := y \<rparr>) = ctl c2" for c2 x y
    by (simp_all add: ctl_def)
  have "ctl (Close c) = ctl c" by (simp add: Close_def initTermination_def Let_def ctl_simps upd)
  then show ?thesis using i conn_inv_ctl by blast
qed

lemma inv_step:
  assumes i: "conn_inv ps cfg c" and "conn_step c c'"
  shows "conn_inv ps cfg c'"
  using assms(2)
proof cases
  case (resend_timer now)
  have u: "ctl (c\<lparr> resendTimer := x \<rparr>) = ctl c" for x by (simp add: ctl_def)
  have "ctl c' = ctl c"
    using resend_timer u by (auto simp: resendTimer_fired_def go_simps ctl_simps split: option.splits dest!: ctl_resend_lost)
  then show ?thesis using i conn_inv_ctl by blast
next
  case (user_write fuel buffer r)
  have "ctl (c\<lparr> txCount := x \<rparr>) = ctl c" for x by (simp add: ctl_def)
  then have "ctl c' = ctl c" using user_write by (auto simp: Write_def split: if_splits dest!: ctl_write_loop)
  then show ?thesis using i conn_inv_ctl by blast
next
  case (user_read now buffer r b)
  have "ctl (c\<lparr> readChannel := x \<rparr>) = ctl c" for x by (simp add: ctl_def)
  then have "ctl c' = ctl c" using user_read
    by (auto simp: Read_def pcpRead_def Let_def ctl_simps split: if_splits option.splits list.splits)
  then show ?thesis using i conn_inv_ctl by blast
next
  case close_timeout
  then have "c' = c \<or> clearConnResource c = Return c'" by (auto simp: Close_timed_out_def split: if_splits)
  then show ?thesis using i inv_clear(1) by blast
qed (use i in \<open>auto intro: inv_incoming inv_clear(1) inv_handshake inv_signal_timer inv_keepalive_timer inv_close\<close>)

interpretation conn: machine conn_step "conn_inv ps cfg" for ps cfg
  by unfold_locales (rule inv_step)

section \<open>Termination handshake lemmas\<close>

definition last_signal :: "connection \<Rightarrow> packet" where
  "last_signal c = last (the (sigOutputChan c))"

definition alive :: "connection \<Rightarrow> bool" where
  "alive c \<longleftrightarrow> (KeepAliveEnabled (config c) \<longrightarrow> keepaliveTimer c \<noteq> None)"

definition term_view :: "connection \<Rightarrow> (nat \<times> nat \<times> u32 \<times> u32) \<times> u32 \<times> packet list option \<times> connectionParams" where
  "term_view c = ((terminationCallerState c, terminationRespState c, termStartSeq c, termStartPeerSeq c),
     lastAckNumber c, sigOutputChan c, params c)"

lemma term_view_note: "term_view (note_packet p c) = term_view c"
  by (auto simp: note_packet_def term_view_def Let_def updateResendPacketsOnAck_def split: option.split prod.split)

lemma term_view_reset: "alive c \<Longrightarrow> \<exists>c'. reset_keepalive c = Return c' \<and> term_view c' = term_view c
    \<and> connSignalTimer c' = connSignalTimer c \<and> writeOnHold c' = writeOnHold c \<and> isBidirectional c' = isBidirectional c
    \<and> alive c'"
  by (auto simp: reset_keepalive_def alive_def term_view_def split: option.split)

lemma note_timer: "connSignalTimer c \<noteq> None \<Longrightarrow> connSignalTimer (note_packet p c) \<noteq> None"
  by (auto simp: note_packet_def Let_def updateResendPacketsOnAck_def split: option.split prod.split)

lemma has_flag_signal [simp]: "has_flag (signal_packet s a f c) g \<longleftrightarrow> f AND g \<noteq> 0"
  by (simp add: has_flag_def)

lemma close_sends_fin:
  assumes "\<not> isClosed c" "\<not> connCloseBegins c" "sigOutputChan c = Some sent"
  shows "\<exists>fin. sigOutputChan (Close c) = Some (sent @ [fin]) \<and> last_signal (Close c) = fin
    \<and> (\<exists>c'. fin = signal_packet (termStartSeq c) (lastAckNumber c) (FINFlag OR ACKFlag) c')
    \<and> terminationCallerState (Close c) = CallerFinSent \<and> termStartSeq (Close c) = termStartSeq c
    \<and> termStartPeerSeq (Close c) = lastAckNumber c \<and> connSignalTimer (Close c) \<noteq> None"
  using assms
  by (auto simp: Close_def initTermination_def termCallerSendFin_def Let_def send_signal_def
      startConnSignalTimer_def last_signal_def)

lemma responder_answers_fin:
  assumes "alive r" "terminationRespState r = 0" "terminationCallerState r = 0" "sigOutputChan r = Some sent"
    and "fin = signal_packet s a (FINFlag OR ACKFlag) c"
  shows "\<exists>r1. handleIncomingPackets now fin r = Return (Continue r1)
    \<and> (\<exists>c'. last_signal r1 = signal_packet a (s + 1) (FINFlag OR ACKFlag) c')
    \<and> term_view r1 = ((0, RespFinAckSent, a, s + 1), s + 1, Some (sent @ [last_signal r1]), params r)
    \<and> connSignalTimer r1 \<noteq> None \<and> alive r1"
proof -
  obtain r' where r': "reset_keepalive r = Return r'" "term_view r' = term_view r" "alive r'"
    using term_view_reset [OF assms(1)] by blast
  define n where "n = note_packet fin r'"
  have v: "term_view n = term_view r" by (simp add: n_def term_view_note r'(2))
  have al: "alive n"
    using r'(3) by (auto simp: n_def alive_def note_packet_def Let_def updateResendPacketsOnAck_def
        split: option.splits prod.splits)
  define c1 where "c1 = n\<lparr> writeOnHold := True, terminationRespState := RespFinReceived, lastAckNumber := s + 1,
      termStartSeq := a, termStartPeerSeq := s + 1 \<rparr>"
  define r1 where "r1 = startConnSignalTimer (termRespSendFinAck c1)"
  have sig: "sigOutputChan n = Some sent" "terminationCallerState n = 0" "terminationRespState n = 0" "params n = params r"
    using v assms(2-4) by (simp_all add: term_view_def)
  have "handleIncomingPackets now fin r = Return (Continue r1)"
    using sig unfolding handleIncomingPackets_def r'(1) n_def [symmetric] go_bind.simps
    by (simp add: Let_def n_def [symmetric] assms(5) handle_fin_def r1_def c1_def)
  moreover have "last_signal r1 = signal_packet a (s + 1) (FINFlag OR ACKFlag) c1"
    using sig by (simp add: r1_def startConnSignalTimer_def termRespSendFinAck_def send_signal_def last_signal_def c1_def)
  ultimately show ?thesis
    using sig al by (auto simp: r1_def startConnSignalTimer_def termRespSendFinAck_def send_signal_def last_signal_def
        c1_def term_view_def alive_def)
qed

lemma caller_finishes:
  assumes "alive c" "terminationCallerState c = CallerFinSent" "sigOutputChan c = Some sent" "connSignalTimer c \<noteq> None"
    and "fa = signal_packet (termStartPeerSeq c) (termStartSeq c + 1) (FINFlag OR ACKFlag) r"
  shows "\<exists>c2. handleIncomingPackets now fa c = Return (StopAndClear c2)
    \<and> (\<exists>c'. last_signal c2 = signal_packet (termStartSeq c + 1) (termStartPeerSeq c + 1) ACKFlag c')
    \<and> sigOutputChan c2 = Some (sent @ [last_signal c2]) \<and> terminationCallerState c2 = CallerAckSent"
proof -
  obtain c' where c': "reset_keepalive c = Return c'" "term_view c' = term_view c" "connSignalTimer c' = connSignalTimer c"
    using term_view_reset [OF assms(1)] by blast
  define n where "n = note_packet fa c'"
  have v: "term_view n = term_view c" by (simp add: n_def term_view_note c'(2))
  obtain t where t: "connSignalTimer n = Some t"
    using note_timer [of c' fa] assms(4) c'(3) by (auto simp: n_def)
  have sig: "sigOutputChan n = Some sent" "terminationCallerState n = CallerFinSent"
    "termStartSeq n = termStartSeq c" "termStartPeerSeq n = termStartPeerSeq c"
    using v assms(2,3) by (simp_all add: term_view_def)
  define n1 where "n1 = n\<lparr> connSignalTimer := Some (timer_Stop t), lastAckNumber := termStartPeerSeq c + 1 \<rparr>"
  have "handleIncomingPackets now fa c = Return (StopAndClear (termCallerSendAck n1))"
    unfolding handleIncomingPackets_def c'(1) go_bind.simps n_def [symmetric]
    using sig t by (simp add: Let_def n_def [symmetric] assms(5) handle_fin_def stopConnSignalTimer_def n1_def)
  then show ?thesis
    using sig by (auto simp: termCallerSendAck_def send_signal_def last_signal_def n1_def Let_def)
qed

lemma responder_finishes:
  assumes "alive r" "terminationRespState r = RespFinAckSent" "connSignalTimer r \<noteq> None"
    and "ack = signal_packet (termStartPeerSeq r) (termStartSeq r + 1) ACKFlag c"
  shows "\<exists>r2. handleIncomingPackets now ack r = Return (StopAndClear r2) \<and> terminationRespState r2 = RespAckReceived"
proof -
  obtain c' where c': "reset_keepalive r = Return c'" "term_view c' = term_view r" "connSignalTimer c' = connSignalTimer r"
    using term_view_reset [OF assms(1)] by blast
  define n where "n = note_packet ack c'"
  have v: "term_view n = term_view r" by (simp add: n_def term_view_note c'(2))
  obtain t where t: "connSignalTimer n = Some t"
    using note_timer [of c' ack] assms(3) c'(3) by (auto simp: n_def)
  have sig: "terminationRespState n = RespFinAckSent" "termStartSeq n = termStartSeq r" "termStartPeerSeq n = termStartPeerSeq r"
    using v assms(2) by (simp_all add: term_view_def)
  show ?thesis
    unfolding handleIncomingPackets_def c'(1) go_bind.simps n_def [symmetric]
    using sig t by (simp add: Let_def n_def [symmetric] assms(4) handle_ack_def stopConnSignalTimer_def)
qed

section \<open>Repeated timer events\<close>

fun signal_fires :: "nat \<Rightarrow> connection \<Rightarrow> connection go" where
  "signal_fires 0 c = Return c"
| "signal_fires (Suc k) c = go_bind (connSignalTimer_fired c) (signal_fires k)"

fun keepalive_fires :: "nat \<Rightarrow> connection \<Rightarrow> connection go" where
  "keepalive_fires 0 c = Return c"
| "keepalive_fires (Suc k) c = go_bind (keepaliveTimer_fired True c) (keepalive_fires k)"

definition is_syn :: "u32 \<Rightarrow> packet \<Rightarrow> bool" where
  "is_syn isn p \<longleftrightarrow> Flags p = SYNFlag \<and> SequenceNumber p = isn \<and> Payload p = []"

lemma syn_retries:
  assumes "initClientState c = SynSent" "connSignalTimer c = Some t" "\<not> connSignalFailedClosed c"
    and "connSignalRetryCount c = k" "ConnSignalRetry (config c) = k + int (Suc n)" "sigOutputChan c = Some sent"
  shows "\<exists>c' syns. signal_fires (Suc n) c = Return c' \<and> sigOutputChan c' = Some (sent @ syns) \<and> length syns = n
    \<and> (\<forall>p \<in> set syns. is_syn (initialSeq c) p)
    \<and> connSignalFailedClosed c' \<and> (\<exists>t. connSignalTimer c' = Some t \<and> \<not> running t) \<and> connSignalRetryCount c' = 0"
  using assms
proof (induction n arbitrary: c t k sent)
  case 0
  then show ?case
    by (simp add: connSignalTimer_fired_def stopConnSignalTimer_def timer_Stop_def)
next
  case (Suc n)
  define c1 where "c1 = startConnSignalTimer (initSendSyn (c\<lparr> connSignalRetryCount := k + 1 \<rparr>))"
  have f: "connSignalTimer_fired c = Return c1"
    using Suc.prems by (simp add: connSignalTimer_fired_def resend_signal_def c1_def)
  obtain syn where sent: "sigOutputChan c1 = Some (sent @ [syn])" "is_syn (initialSeq c) syn"
    using Suc.prems(6) by (auto simp: c1_def startConnSignalTimer_def initSendSyn_def send_signal_def is_syn_def)
  have "initClientState c1 = SynSent" "connSignalTimer c1 = Some (AfterFunc (time_Second * ConnSignalRetryInterval (config c)))"
    "\<not> connSignalFailedClosed c1" "connSignalRetryCount c1 = k + 1" "config c1 = config c" "initialSeq c1 = initialSeq c"
    using Suc.prems(3) by (simp_all add: c1_def startConnSignalTimer_def initSendSyn_def send_signal_def)
  then obtain c' syns where "signal_fires (Suc n) c1 = Return c'" "sigOutputChan c' = Some ((sent @ [syn]) @ syns)" "length syns = n"
    "\<forall>p \<in> set syns. is_syn (initialSeq c) p" "connSignalFailedClosed c'" "\<exists>t. connSignalTimer c' = Some t \<and> \<not> running t"
    "connSignalRetryCount c' = 0"
    using Suc.IH [of c1 _ "k + 1" "sent @ [syn]"] Suc.prems(5) sent(1) by auto
  then show ?case
    using f sent(2) by (intro exI [of _ c'] exI [of _ "syn # syns"]) simp
qed

lemma keepalive_run:
  assumes "\<not> isClosed c" "\<not> closeSignalClosed c" "timeoutCount c + int n = MaxKeepaliveAttempts (config c)"
    and "pool_gives n (rpool c)"
  shows "\<exists>c' probes. keepalive_fires (Suc n) c = Return c' \<and> isClosed c' \<and> outputChan c' = outputChan c @ probes
    \<and> length probes = n
    \<and> (\<forall>p \<in> set probes. SequenceNumber p = nextSequenceNumber c - 1 \<and> Payload p = [0] \<and> IsKeepAliveMassege p)"
  using assms
proof (induction n arbitrary: c)
  case 0
  then show ?case by (auto simp: keepaliveTimer_fired_def clearConnResource_def Let_def)
next
  case (Suc n)
  obtain p rp where p: "NewPcpPacket (nextSequenceNumber c - 1) (lastAckNumber c) ACKFlag [0] c = (Some p, c\<lparr> rpool := rp \<rparr>)"
    "pool_gives n rp" "SequenceNumber p = nextSequenceNumber c - 1" "Payload p = [0]"
    using NewPcpPacket_data [OF Suc.prems(4), of "[0]" "nextSequenceNumber c - 1" "lastAckNumber c" ACKFlag] by auto
  define q where "q = p\<lparr> IsKeepAliveMassege := True \<rparr>"
  define c1 where "c1 = startKeepaliveTimer (c\<lparr> rpool := rp, outputChan := outputChan c @ [q],
      isKeepAliveInProgress := True, timeoutCount := timeoutCount c + 1 \<rparr>)"
  have "timeoutCount c \<noteq> MaxKeepaliveAttempts (config c)" using Suc.prems(3) by simp
  then have f: "keepaliveTimer_fired True c = Return c1"
    using Suc.prems(1) p(1) by (simp add: keepaliveTimer_fired_def sendKeepalivePacket_def Let_def c1_def q_def)
  have "\<not> isClosed c1" "\<not> closeSignalClosed c1" "timeoutCount c1 + int n = MaxKeepaliveAttempts (config c1)"
    "pool_gives n (rpool c1)" "nextSequenceNumber c1 = nextSequenceNumber c" "outputChan c1 = outputChan c @ [q]"
    using Suc.prems p(2) by (simp_all add: c1_def startKeepaliveTimer_def)
  then obtain c' probes where "keepalive_fires (Suc n) c1 = Return c'" "isClosed c'"
    "outputChan c' = (outputChan c @ [q]) @ probes" "length probes = n"
    "\<forall>p \<in> set probes. SequenceNumber p = nextSequenceNumber c - 1 \<and> Payload p = [0] \<and> IsKeepAliveMassege p"
    using Suc.IH [of c1] by auto
  then show ?case
    using f p(3,4) by (intro exI [of _ c'] exI [of _ "q # probes"]) (simp add: q_def)
qed

section \<open>Properties\<close>


definition sample_params :: connectionParams where
  "sample_params = \<lparr> key = ''k'', isServer = False, remoteAddr = IPAddr [10, 0, 0, 2], localAddr = IPAddr [10, 0, 0, 1],
     remotePort = 8901, localPort = 40000 \<rparr>"


text \<open>
  C11. The 4-way termination completes: the FIN that \<open>Close\<close> sends makes an idle peer answer with a
  FIN-ACK, that makes the caller send the final ACK and stop, and that ACK makes the peer stop;
  each of the three packets passes the sequence checks of the side that receives it.
\<close>

theorem termination_handshake_completes:
  assumes "\<not> isClosed c" "\<not> connCloseBegins c" "sigOutputChan c = Some sc" "alive c"
    and "terminationRespState r = 0" "terminationCallerState r = 0" "sigOutputChan r = Some sr" "alive r"
  shows "\<exists>r1 c2 r2.
      handleIncomingPackets t1 (last_signal (Close c)) r = Return (Continue r1)
    \<and> handleIncomingPackets t2 (last_signal r1) (Close c) = Return (StopAndClear c2)
    \<and> handleIncomingPackets t3 (last_signal c2) r1 = Return (StopAndClear r2)
    \<and> terminationCallerState c2 = CallerAckSent \<and> terminationRespState r2 = RespAckReceived
    \<and> lastAckNumber r1 = SequenceNumber (last_signal (Close c)) + 1"
proof -
  let ?c1 = "Close c"
  obtain fin c0 where fin: "sigOutputChan ?c1 = Some (sc @ [fin])" "last_signal ?c1 = fin"
    "fin = signal_packet (termStartSeq c) (lastAckNumber c) (FINFlag OR ACKFlag) c0"
    "terminationCallerState ?c1 = CallerFinSent" "termStartSeq ?c1 = termStartSeq c" "termStartPeerSeq ?c1 = lastAckNumber c"
    "connSignalTimer ?c1 \<noteq> None"
    using close_sends_fin [OF assms(1-3)] by blast
  have al: "alive ?c1"
    using assms(4) by (auto simp: Close_def initTermination_def termCallerSendFin_def Let_def send_signal_def
        startConnSignalTimer_def alive_def)
  obtain r1 c' where r1: "handleIncomingPackets t1 fin r = Return (Continue r1)"
    "last_signal r1 = signal_packet (lastAckNumber c) (termStartSeq c + 1) (FINFlag OR ACKFlag) c'"
    "term_view r1 = ((0, RespFinAckSent, lastAckNumber c, termStartSeq c + 1), termStartSeq c + 1, Some (sr @ [last_signal r1]), params r)"
    "connSignalTimer r1 \<noteq> None" "alive r1"
    using responder_answers_fin [OF assms(8,5,6,7) fin(3), of t1] by blast
  have st: "terminationRespState r1 = RespFinAckSent" "termStartSeq r1 = lastAckNumber c"
    "termStartPeerSeq r1 = termStartSeq c + 1" "lastAckNumber r1 = termStartSeq c + 1"
    using r1(3) by (simp_all add: term_view_def)
  have e: "last_signal r1 = signal_packet (termStartPeerSeq ?c1) (termStartSeq ?c1 + 1) (FINFlag OR ACKFlag) c'"
    using r1(2) fin(5,6) by simp
  obtain c2 c'' where c2: "handleIncomingPackets t2 (last_signal r1) ?c1 = Return (StopAndClear c2)"
    "last_signal c2 = signal_packet (termStartSeq c + 1) (lastAckNumber c + 1) ACKFlag c''"
    "terminationCallerState c2 = CallerAckSent"
    using caller_finishes [OF al fin(4,1,7) e, of t2] unfolding fin(5,6) by blast
  obtain r2 where "handleIncomingPackets t3 (last_signal c2) r1 = Return (StopAndClear r2)" "terminationRespState r2 = RespAckReceived"
    using responder_finishes [OF r1(5) st(1) r1(4), of "last_signal c2" c'' t3] c2(2) by (simp add: st) blast
  then show ?thesis using r1(1) c2 fin(2,3) st(4) by auto
qed

definition fresh_conn :: "u32 \<Rightarrow> connection" where
  "fresh_conn isn = newConnection isn \<lparr> answers = replicate 5 (Some sample_element), returned = [] \<rparr> sample_params DefaultConnectionConfig"

lemma fresh_conn_simps [simp]:
  "isClosed (fresh_conn isn) = False" "connCloseBegins (fresh_conn isn) = False" "sigOutputChan (fresh_conn isn) = Some []"
  "alive (fresh_conn isn)" "terminationRespState (fresh_conn isn) = 0" "terminationCallerState (fresh_conn isn) = 0"
  "closeSignalClosed (fresh_conn isn) = False" "timeoutCount (fresh_conn isn) = 0" "outputChan (fresh_conn isn) = []"
  "nextSequenceNumber (fresh_conn isn) = isn" "MaxKeepaliveAttempts (config (fresh_conn isn)) = 3"
  "termStartSeq (fresh_conn isn) = 0" "readChannel (fresh_conn isn) = []" "KeepAliveEnabled (config (fresh_conn isn))"
  by (simp_all add: fresh_conn_def newConnection_def Let_def startKeepaliveTimer_def alive_def DefaultConnectionConfig_def)

theorem termination_handshake_completes_witness:
  "\<exists>r1 c2. handleIncomingPackets 0 (last_signal (Close (fresh_conn 5))) (fresh_conn 9) = Return (Continue r1)
    \<and> handleIncomingPackets 1 (last_signal r1) (Close (fresh_conn 5)) = Return (StopAndClear c2)"
  using termination_handshake_completes [of "fresh_conn 5" "[]" "fresh_conn 9" "[]" 0 1 2] by auto

text \<open>
  The FIN of a closing connection carries sequence number 0 and not the connection's next one:
  \<open>initTermination\<close> never sets the termination sequence number it sends.
\<close>

theorem fin_has_sequence_zero:
  assumes "\<not> isClosed c" "\<not> connCloseBegins c" "sigOutputChan c = Some sc" "termStartSeq c = 0"
  shows "SequenceNumber (last_signal (Close c)) = 0 \<and> Flags (last_signal (Close c)) = FINFlag OR ACKFlag
    \<and> nextSequenceNumber (Close c) = SeqIncrement (nextSequenceNumber c)"
  using assms
  by (auto simp: Close_def initTermination_def termCallerSendFin_def Let_def send_signal_def
      startConnSignalTimer_def last_signal_def)

theorem fin_has_sequence_zero_witness:
  "SequenceNumber (last_signal (Close (fresh_conn 77))) = 0 \<and> nextSequenceNumber (fresh_conn 77) = 77"
  using fin_has_sequence_zero [of "fresh_conn 77" "[]"] by simp

text \<open>
  Two sides that close at the same time do not finish each other: a side whose FIN is out
  ignores a FIN-ACK whose numbers are not the ones it waits for, and stays in its state.
\<close>

theorem simultaneous_fin_ignored:
  assumes "alive c" "terminationCallerState c = CallerFinSent"
    and "has_flag fin FINFlag" "Payload fin = []"
    and "SequenceNumber fin \<noteq> termStartPeerSeq c \<or> AcknowledgmentNum fin \<noteq> termStartSeq c + 1"
  shows "\<exists>c'. handleIncomingPackets now fin c = Return (Continue c') \<and> term_view c' = term_view c"
proof -
  obtain c1 where c1: "reset_keepalive c = Return c1" "term_view c1 = term_view c"
    using term_view_reset [OF assms(1)] by blast
  define n where "n = note_packet fin c1"
  have v: "term_view n = term_view c" by (simp add: n_def term_view_note c1(2))
  then have s: "terminationCallerState n = CallerFinSent" "termStartPeerSeq n = termStartPeerSeq c" "termStartSeq n = termStartSeq c"
    using assms(2) by (simp_all add: term_view_def)
  have "handleIncomingPackets now fin c = Return (Continue n)"
    unfolding handleIncomingPackets_def c1(1) go_bind.simps
    using s assms(3-5) by (auto simp: Let_def n_def [symmetric] handle_fin_def)
  then show ?thesis using v by blast
qed

theorem simultaneous_fin_ignored_witness:
  "\<exists>c'. handleIncomingPackets 0 (signal_packet 3 8 (FINFlag OR ACKFlag) (fresh_conn 9)) (Close (fresh_conn 5)) = Return (Continue c')"
proof -
  have "alive (Close (fresh_conn 5))" "terminationCallerState (Close (fresh_conn 5)) = CallerFinSent"
    "termStartSeq (Close (fresh_conn 5)) = 0"
    using close_sends_fin [of "fresh_conn 5" "[]"]
    by (auto simp: Close_def initTermination_def termCallerSendFin_def Let_def send_signal_def
        startConnSignalTimer_def alive_def fresh_conn_def newConnection_def startKeepaliveTimer_def)
  then show ?thesis
    using simultaneous_fin_ignored [of "Close (fresh_conn 5)" "signal_packet 3 8 (FINFlag OR ACKFlag) (fresh_conn 9)" 0] by auto
qed

text \<open>
  C24. A handshake that gets no answer ends: the signal timer of a client that has sent its SYN
  resends it exactly one time less than the configured number of retries, with the initial
  sequence number each time, and at the last firing reports the failure once and stays stopped.
\<close>

theorem syn_retries_then_fails:
  assumes "initClientState c = SynSent" "connSignalTimer c \<noteq> None" "\<not> connSignalFailedClosed c"
    and "connSignalRetryCount c = 0" "ConnSignalRetry (config c) = int (Suc n)" "sigOutputChan c = Some sent"
  shows "\<exists>c' syns. signal_fires (Suc n) c = Return c' \<and> sigOutputChan c' = Some (sent @ syns) \<and> length syns = n
    \<and> (\<forall>p \<in> set syns. Flags p = SYNFlag \<and> SequenceNumber p = initialSeq c)
    \<and> connSignalFailedClosed c' \<and> (\<exists>t. connSignalTimer c' = Some t \<and> \<not> running t)"
  using syn_retries [of c _ 0 n sent] assms unfolding is_syn_def by fastforce

theorem syn_retries_then_fails_witness:
  "\<exists>c' syns. signal_fires 5 (startConnSignalTimer (initSendSyn (fresh_conn 7))) = Return c' \<and> length syns = 4
    \<and> sigOutputChan c' = Some ([last_signal (initSendSyn (fresh_conn 7))] @ syns)"
proof -
  let ?c = "startConnSignalTimer (initSendSyn (fresh_conn 7))"
  have "initClientState ?c = SynSent" "connSignalTimer ?c \<noteq> None" "\<not> connSignalFailedClosed ?c"
    "connSignalRetryCount ?c = 0" "ConnSignalRetry (config ?c) = int (Suc 4)"
    "sigOutputChan ?c = Some [last_signal (initSendSyn (fresh_conn 7))]"
    by (simp_all add: startConnSignalTimer_def initSendSyn_def send_signal_def fresh_conn_def newConnection_def
        startKeepaliveTimer_def Let_def DefaultConnectionConfig_def last_signal_def)
  from syn_retries_then_fails [OF this] show ?thesis by (simp add: eval_nat_numeral) blast
qed

text \<open>
  C25. An idle connection is closed after the configured number of keepalive probes: each firing
  of the timer sends one probe, a packet with one zero byte and the number before the next
  one, and the firing after the last probe clears the connection.
\<close>

theorem keepalive_closes_idle:
  assumes "\<not> isClosed c" "\<not> closeSignalClosed c" "timeoutCount c = 0" "MaxKeepaliveAttempts (config c) = int n"
    and "pool_gives n (rpool c)"
  shows "\<exists>c' probes. keepalive_fires (Suc n) c = Return c' \<and> isClosed c' \<and> outputChan c' = outputChan c @ probes
    \<and> length probes = n
    \<and> (\<forall>p \<in> set probes. SequenceNumber p = nextSequenceNumber c - 1 \<and> Payload p = [0])"
  using keepalive_run [of c n] assms by fastforce

lemma fresh_pool: "n \<le> 5 \<Longrightarrow> pool_gives n (rpool (fresh_conn isn))"
  by (auto simp: fresh_conn_def newConnection_def Let_def startKeepaliveTimer_def pool_gives_def sample_element_def)

theorem keepalive_closes_idle_witness:
  "\<exists>c' probes. keepalive_fires 4 (fresh_conn 50) = Return c' \<and> isClosed c' \<and> outputChan c' = probes \<and> length probes = 3"
proof -
  have "pool_gives 3 (rpool (fresh_conn 50))" by (rule fresh_pool) simp
  then show ?thesis using keepalive_closes_idle [of "fresh_conn 50" 3] by (fastforce simp: eval_nat_numeral)
qed

text \<open>
  A keepalive probe gets no answer from a live peer that has received everything: its number
  is below the peer's acknowledged one, so it is discarded like an old segment, without an ACK.
  Only traffic of the peer's own stops the prober from closing the connection.
\<close>

theorem keepalive_probe_unanswered:
  assumes "SequenceNumber probe = nextSequenceNumber c - 1" "lastAckNumber peer = nextSequenceNumber c"
    and "nextSequenceNumber c \<noteq> 0"
  shows "\<exists>peer'. handleDataPacket now probe peer = Return peer' \<and> outputChan peer' = outputChan peer
    \<and> readChannel peer' = readChannel peer"
proof -
  have "nextSequenceNumber c - 1 < nextSequenceNumber c"
    using assms(3) by (simp add: word_less_nat_alt unat_minus_one unat_gt_0)
  then show ?thesis using assms(1,2) by (simp add: handleDataPacket_def return_chunk_of_def)
qed

theorem keepalive_probe_unanswered_witness:
  "\<exists>peer'. handleDataPacket 0 (data_packet 49 [0]) ((fresh_conn 3)\<lparr> lastAckNumber := 50 \<rparr>) = Return peer' \<and> outputChan peer' = []"
  using keepalive_probe_unanswered [of "data_packet 49 [0]" "fresh_conn 50" "(fresh_conn 3)\<lparr> lastAckNumber := 50 \<rparr>" 0] by auto

text \<open>
  A packet still queued when a connection with keepalive is cleared crashes the process if its
  goroutine takes the packet before the close signal: the keepalive timer it resets is nil.
\<close>

theorem queued_packet_after_clear_panics:
  assumes "\<not> isClosed c" "KeepAliveEnabled (config c)" "clearConnResource c = Return c'"
  shows "handleIncomingPackets now p c' = Panic"
proof -
  have "keepaliveTimer c' = None" "config c' = config c"
    using assms by (auto simp: clearConnResource_def Let_def split: if_splits)
  then show ?thesis using assms(2) by (simp add: handleIncomingPackets_def reset_keepalive_def)
qed

theorem queued_packet_after_clear_panics_witness:
  "\<exists>c'. clearConnResource (fresh_conn 7) = Return c' \<and> handleIncomingPackets 0 (data_packet 1 [2]) c' = Panic"
proof -
  obtain c' where "clearConnResource (fresh_conn 7) = Return c'"
    by (auto simp: clearConnResource_def Let_def)
  then show ?thesis using queued_packet_after_clear_panics [of "fresh_conn 7" c' 0 "data_packet 1 [2]"] by simp
qed

text \<open>Clearing gives back the chunks of the packets kept for resending and behind gaps, but not
  those of packets nobody read.\<close>

lemma clear_returns_stored:
  assumes "\<not> isClosed c" "\<not> closeSignalClosed c" "SackEnabled (tcpOptions c)"
  shows "\<exists>c'. clearConnResource c = Return c' \<and> readChannel c' = []
    \<and> rpool c' = return_chunks (cached_packets (revPacketCache c)) (return_chunks (sent_packets (resendPackets c)) (rpool c))"
  using assms by (simp add: clearConnResource_def Let_def)

end
