(* ===== verification/Service.thy ===== *)
theory Service
  imports Conn_Signal Go_Text
begin

text \<open>
  \<open>lib/service.go\<close>: a service that listens on a port, its maps of open and half-open connections,
  \<open>Accept\<close>, the SYN handler with the option negotiation, and the close handling. Connections are
  objects behind pointers: \<open>objs\<close> is the store of the connections made, each with its input
  channel, and the maps and channels hold indices into it. A nil map is \<open>None\<close>. The pool answers
  that a connection's requests get are given when it is made.
\<close>

section \<open>The code: state\<close>

record service =
  svc_connConfig :: ConnectionConfig
  serviceAddr :: addr
  port :: int
  objs :: "(connection \<times> packet list) list"
  connectionMap :: "(string \<times> nat) list option"
  tempConnMap :: "(string \<times> nat) list option"
  newConnChannel :: "nat list"
  svc_closeSignalClosed :: bool
  svc_isClosed :: bool

definition newService :: "addr \<Rightarrow> int \<Rightarrow> ConnectionConfig \<Rightarrow> service" where
  "newService addr p cfg =
     \<lparr> svc_connConfig = cfg, serviceAddr = addr, port = p, objs = [], connectionMap = Some [],
       tempConnMap = Some [], newConnChannel = [], svc_closeSignalClosed = False, svc_isClosed = False \<rparr>"

definition map_get :: "('k \<times> 'v) list option \<Rightarrow> 'k \<Rightarrow> 'v option" where
  "map_get m k = (case m of None \<Rightarrow> None | Some kvs \<Rightarrow> map_of kvs k)"

definition map_put :: "'k \<Rightarrow> 'v \<Rightarrow> ('k \<times> 'v) list option \<Rightarrow> ('k \<times> 'v) list option go" where
  "map_put k v m = (case m of None \<Rightarrow> Panic | Some kvs \<Rightarrow> Return (Some (AList.update k v kvs)))"

definition map_delete :: "'k \<Rightarrow> ('k \<times> 'v) list option \<Rightarrow> ('k \<times> 'v) list option" where
  "map_delete k m = map_option (AList.delete k) m"

definition obj_conn :: "service \<Rightarrow> nat \<Rightarrow> connection" where
  "obj_conn s i = fst (objs s ! i)"

definition set_conn :: "nat \<Rightarrow> connection \<Rightarrow> service \<Rightarrow> service" where
  "set_conn i c s = s\<lparr> objs := (objs s)[i := (c, snd (objs s ! i))] \<rparr>"

definition put_input :: "nat \<Rightarrow> packet \<Rightarrow> service \<Rightarrow> service" where
  \<comment> \<open>\<open>conn.inputChannel <- packet\<close>\<close>
  "put_input i p s = s\<lparr> objs := (objs s)[i := (fst (objs s ! i), snd (objs s ! i) @ [p])] \<rparr>"

section \<open>The code: operations\<close>

datatype accept_result = Accepted nat | AcceptClosed | AcceptWaits

definition Accept_turn :: "service \<Rightarrow> (accept_result \<times> service) go" where
  \<comment> \<open>one turn of the loop of \<open>Accept\<close>; \<open>AcceptWaits\<close> when it goes round again\<close>
  "Accept_turn s =
     (if svc_closeSignalClosed s then Return (AcceptClosed, s)
      else case newConnChannel s of
        [] \<Rightarrow> Return (AcceptWaits, s)
      | newConn # rest \<Rightarrow>
          let s1 = s\<lparr> newConnChannel := rest \<rparr>;
              k = key (params (obj_conn s newConn))
          in case map_get (tempConnMap s1) k of
              None \<Rightarrow> Return (AcceptWaits, s1)
            | Some _ \<Rightarrow>
                go_bind (map_put k newConn (connectionMap s1)) (\<lambda>m.
                  Return (Accepted newConn, s1\<lparr> tempConnMap := map_delete k (tempConnMap s1), connectionMap := m \<rparr>)))"

datatype dispatch = Forwarded nat | ChunkReturned
  \<comment> \<open>sent on the input channel of a connection, or the packet's chunk given back to the pool\<close>

definition temp_target :: "service \<Rightarrow> string \<Rightarrow> nat option" where
  "temp_target s connKey =
     (case map_get (tempConnMap s) connKey of
        Some tempConn \<Rightarrow> if \<not> isClosed (obj_conn s tempConn) then Some tempConn else None
      | None \<Rightarrow> None)"

definition handleOtherPacket :: "packet \<Rightarrow> service \<Rightarrow> (dispatch \<times> service) go" where
  "handleOtherPacket packet s =
     (case SrcAddr packet of NilAddr \<Rightarrow> Panic
      | IPAddr sourceIP \<Rightarrow>
          let connKey = ip_string sourceIP @ '':'' @ dec (unat (SourcePort packet));
              target = (case map_get (connectionMap s) connKey of
                  Some conn \<Rightarrow> if \<not> isClosed (obj_conn s conn) then Some conn else temp_target s connKey
                | None \<Rightarrow> temp_target s connKey)
          in case target of
              Some i \<Rightarrow> Return (Forwarded i, put_input i packet s)
            | None \<Rightarrow> Return (ChunkReturned, s))"

definition negotiate_server :: "options \<Rightarrow> options \<Rightarrow> options" where
  \<comment> \<open>the new connection's options after the SYN's\<close>
  "negotiate_server theirs o0 =
     (let o1 = (if mss theirs > 0 then (if mss theirs < mss o0 then o0\<lparr> mss := mss theirs \<rparr> else o0)
                else o0\<lparr> mss := 0 \<rparr>);
          o2 = (if windowScaleShiftCount theirs = 0 then o1\<lparr> windowScaleShiftCount := 0 \<rparr> else o1);
          o3 = o2\<lparr> permitSack := permitSack o2 \<and> permitSack theirs \<rparr>;
          o4 = o3\<lparr> SackEnabled := permitSack o3 \<and> SackEnabled o3 \<rparr>
      in o4\<lparr> timestampEnabled := timestampEnabled theirs, tsEchoReplyValue := timestamp theirs \<rparr>)"

definition handleSynPacket :: "u32 \<Rightarrow> ring_pool \<Rightarrow> packet \<Rightarrow> service \<Rightarrow> service go" where
  "handleSynPacket isn rp packet s =
     (case SrcAddr packet of NilAddr \<Rightarrow> Panic
      | IPAddr ip \<Rightarrow>
          let connKey = to4_string ip @ '':'' @ dec (unat (SourcePort packet)) in
          if map_get (connectionMap s) connKey \<noteq> None then Return s
          else if map_get (tempConnMap s) connKey \<noteq> None then Return s
          else
            let connParams = \<lparr> key = connKey, isServer = True, remoteAddr = SrcAddr packet,
                    localAddr = serviceAddr s, remotePort = uint (SourcePort packet), localPort = port s \<rparr>;
                c0 = (newConnection isn rp connParams (svc_connConfig s))\<lparr> initServerState := SynReceived \<rparr>;
                i = length (objs s)
            in go_bind (map_put connKey i (tempConnMap s)) (\<lambda>m.
                 case TcpOptions packet of None \<Rightarrow> Panic
                 | Some theirs \<Rightarrow>
                     let c1 = c0\<lparr> tcpOptions := negotiate_server theirs (tcpOptions c0),
                               lastAckNumber := SeqIncrement (SequenceNumber packet),
                               initialPeerSeq := SequenceNumber packet \<rparr>;
                         c2 = startConnSignalTimer (initSendSynAck c1);
                         c3 = c2\<lparr> nextSequenceNumber := SeqIncrement (nextSequenceNumber c2) \<rparr>
                     in Return (s\<lparr> objs := objs s @ [(c3, [])], tempConnMap := m \<rparr>)))"

definition svc_handleIncomingPackets :: "u32 \<Rightarrow> ring_pool \<Rightarrow> packet \<Rightarrow> service \<Rightarrow> service go" where
  \<comment> \<open>one packet of the service's input channel\<close>
  "svc_handleIncomingPackets isn rp packet s =
     (if has_flag packet SYNFlag \<and> \<not> has_flag packet ACKFlag
      then handleSynPacket isn rp packet s
      else go_bind (handleOtherPacket packet s) (\<lambda>(d, s'). Return s'))"

definition removeConnectionMapEntry :: "(string \<times> nat) list option \<Rightarrow> connection \<Rightarrow> bool \<times> (string \<times> nat) list option" where
  \<comment> \<open>whether the entry existed, and the map\<close>
  "removeConnectionMapEntry m c =
     (case map_get m (key (params c)) of None \<Rightarrow> (False, m) | Some _ \<Rightarrow> (True, map_delete (key (params c)) m))"

datatype close_event = SvcClosed | ConnSignalFailed nat | ConnClosed nat

definition handleCloseConnections :: "close_event \<Rightarrow> service \<Rightarrow> bool \<times> service" where
  \<comment> \<open>one event: whether the goroutine returns, and the service\<close>
  "handleCloseConnections ev s =
     (case ev of
        SvcClosed \<Rightarrow> (True, s)
      | ConnSignalFailed i \<Rightarrow>
          (let (ok, m) = removeConnectionMapEntry (connectionMap s) (obj_conn s i)
           in if ok then (True, s\<lparr> connectionMap := m \<rparr>)
              else (True, s\<lparr> tempConnMap := snd (removeConnectionMapEntry (tempConnMap s) (obj_conn s i)) \<rparr>))
      | ConnClosed i \<Rightarrow>
          (False, s\<lparr> connectionMap := snd (removeConnectionMapEntry (connectionMap s) (obj_conn s i)) \<rparr>))"

definition map_values :: "('k \<times> nat) list option \<Rightarrow> nat list" where
  "map_values m = (case m of None \<Rightarrow> [] | Some kvs \<Rightarrow> map snd kvs)"

fun close_conns :: "nat list \<Rightarrow> service \<Rightarrow> service go" where
  \<comment> \<open>\<open>CloseAsGoRoutine\<close> of each and the wait for them, where no peer answers in time\<close>
  "close_conns [] s = Return s"
| "close_conns (i # is) s =
     go_bind (Close_timed_out (Close (obj_conn s i))) (\<lambda>c. close_conns is (set_conn i c s))"

fun fail_temp_conns :: "nat list \<Rightarrow> service \<Rightarrow> service go" where
  "fail_temp_conns [] s = Return s"
| "fail_temp_conns (i # is) s =
     (let c = obj_conn s i in
      if \<not> isConnSignalFailedAlreadyClosed c
      then if connSignalFailedClosed c then Panic
           else fail_temp_conns is
             (set_conn i (c\<lparr> isConnSignalFailedAlreadyClosed := True, connSignalFailedClosed := True \<rparr>) s)
      else fail_temp_conns is s)"

definition svc_Close :: "service \<Rightarrow> service go" where
  "svc_Close s0 =
     (if svc_isClosed s0 then Return s0
      else let s = s0\<lparr> svc_isClosed := True \<rparr> in
        go_bind (close_conns (map_values (connectionMap s)) s) (\<lambda>s1.
        let s2 = s1\<lparr> connectionMap := None \<rparr> in
        go_bind (fail_temp_conns (map_values (tempConnMap s2)) s2) (\<lambda>s3.
        let s4 = s3\<lparr> tempConnMap := None \<rparr> in
        if svc_closeSignalClosed s4 then Panic else Return (s4\<lparr> svc_closeSignalClosed := True \<rparr>))))"

section \<open>Runs of a service\<close>

text \<open>
  The events of a service: packets, calls of \<open>Accept\<close>, the handshake goroutine of a half-open
  connection (whose success sends the connection on \<open>newConnChannel\<close>), any step of a connection,
  and the messages to the close handler.
\<close>

inductive svc_step :: "service \<Rightarrow> service \<Rightarrow> bool" where
  packet_in: "svc_handleIncomingPackets isn rp packet s = Return s' \<Longrightarrow> svc_step s s'"
| accept: "Accept_turn s = Return (r, s') \<Longrightarrow> svc_step s s'"
| handshake_turn: "i < length (objs s) \<Longrightarrow> handle3WayHandshake ev (obj_conn s i) = Return (stop, c') \<Longrightarrow>
    s' = (set_conn i c' s)\<lparr> newConnChannel := newConnChannel s
      @ (if newConnSignals c' > newConnSignals (obj_conn s i) then [i] else []) \<rparr> \<Longrightarrow> svc_step s s'"
| conn_turn: "i < length (objs s) \<Longrightarrow> conn_step (obj_conn s i) c' \<Longrightarrow> s' = set_conn i c' s \<Longrightarrow> svc_step s s'"
| close_event: "handleCloseConnections ev s = (stop, s') \<Longrightarrow> svc_step s s'"

definition entries_keyed :: "service \<Rightarrow> (string \<times> nat) list \<Rightarrow> bool" where
  "entries_keyed s kvs \<longleftrightarrow> (\<forall>(k, i) \<in> set kvs. i < length (objs s) \<and> key (params (obj_conn s i)) = k)"

definition svc_maps :: "service \<Rightarrow> (string \<times> nat) list \<Rightarrow> (string \<times> nat) list \<Rightarrow> bool" where
  \<comment> \<open>the two maps have distinct keys and no key in common, each the key of the connection it leads to\<close>
  "svc_maps s ms ts \<longleftrightarrow> connectionMap s = Some ms \<and> tempConnMap s = Some ts \<and> distinct (map fst ms)
     \<and> distinct (map fst ts) \<and> fst ` set ms \<inter> fst ` set ts = {} \<and> entries_keyed s ms \<and> entries_keyed s ts"

definition conns_ok :: "service \<Rightarrow> bool" where
  "conns_ok s \<longleftrightarrow> (\<forall>i < length (objs s). conn_inv (params (obj_conn s i)) (svc_connConfig s) (obj_conn s i))
     \<and> (\<forall>i \<in> set (newConnChannel s). i < length (objs s))"

definition svc_ok :: "service \<Rightarrow> bool" where
  "svc_ok s \<longleftrightarrow> (\<exists>ms ts. svc_maps s ms ts) \<and> conns_ok s"

definition grows :: "service \<Rightarrow> service \<Rightarrow> bool" where
  \<comment> \<open>connections are only added, and none changes its key\<close>
  "grows s s' \<longleftrightarrow> length (objs s) \<le> length (objs s')
     \<and> (\<forall>i < length (objs s). params (obj_conn s' i) = params (obj_conn s i))"

lemma grows_same: "objs s' = objs s \<Longrightarrow> grows s s'"
  by (simp add: grows_def obj_conn_def)

lemma entries_keyed_grows: "entries_keyed s kvs \<Longrightarrow> grows s s' \<Longrightarrow> entries_keyed s' kvs"
  by (fastforce simp: entries_keyed_def grows_def)

lemma maps_grow: "svc_maps s ms ts \<Longrightarrow> grows s s' \<Longrightarrow> connectionMap s' = connectionMap s \<Longrightarrow>
    tempConnMap s' = tempConnMap s \<Longrightarrow> svc_maps s' ms ts"
  by (auto simp: svc_maps_def intro: entries_keyed_grows)

lemma update_absent_string: "map_of kvs k = None \<Longrightarrow> AList.update k v kvs = kvs @ [(k, v)]"
  by (induction kvs) (auto split: if_splits)

lemma keys_delete: "fst ` set (AList.delete k kvs) = fst ` set kvs - {k}"
  by (force simp: AList.delete_eq)

lemma entries_keyed_delete: "entries_keyed s kvs \<Longrightarrow> entries_keyed s (AList.delete k kvs)"
  by (auto simp: entries_keyed_def AList.delete_eq)

lemma entries_keyed_update: "entries_keyed s kvs \<Longrightarrow> i < length (objs s) \<Longrightarrow> key (params (obj_conn s i)) = k \<Longrightarrow> entries_keyed s (AList.update k i kvs)"
  by (induction kvs) (auto simp: entries_keyed_def)

lemma map_get_None: "map_get (Some kvs) k = None \<longleftrightarrow> k \<notin> fst ` set kvs"
  by (simp add: map_get_def map_of_eq_None_iff)

lemma new_connection_inv: "conn_inv ps cfg (newConnection isn rp ps cfg)"
  by (auto simp: conn_inv_def newConnection_def startKeepaliveTimer_def Let_def)

section \<open>The connection a SYN makes\<close>

lemma new_connection_fields [simp]:
  "params (newConnection isn rp ps cfg) = ps" "config (newConnection isn rp ps cfg) = cfg"
  "initialSeq (newConnection isn rp ps cfg) = isn" "nextSequenceNumber (newConnection isn rp ps cfg) = isn"
  "isOpenConnection (newConnection isn rp ps cfg) = False" "isClosed (newConnection isn rp ps cfg) = False"
  "sigOutputChan (newConnection isn rp ps cfg) = Some []"
  "newConnSignals (newConnection isn rp ps cfg) = 0" "outputChan (newConnection isn rp ps cfg) = []"
  "mss (tcpOptions (newConnection isn rp ps cfg)) = word_of_int (PreferredMSS cfg)"
  "permitSack (tcpOptions (newConnection isn rp ps cfg)) = SackPermitSupport cfg"
  "SackEnabled (tcpOptions (newConnection isn rp ps cfg)) = SackOptionSupport cfg"
  "windowScaleShiftCount (tcpOptions (newConnection isn rp ps cfg)) = word_of_int (WindowScale cfg)"
  "timestampEnabled (tcpOptions (newConnection isn rp ps cfg)) = True"
  by (cases "RetransmissionEnabled cfg"; cases "KeepAliveEnabled cfg";
      simp add: newConnection_def startKeepaliveTimer_def)+

lemma negotiate_mss:
  "mss (negotiate_server theirs o0) = (if mss theirs = 0 then 0 else min (mss theirs) (mss o0))"
proof -
  have "mss (negotiate_server theirs o0) = (if mss theirs > 0 then (if mss theirs < mss o0 then mss theirs else mss o0) else 0)"
    by (simp add: negotiate_server_def Let_def)
  then show ?thesis by (auto simp: word_gt_0 min_def)
qed

lemma negotiate_flags:
  "SackEnabled (negotiate_server theirs o0) \<longleftrightarrow> (permitSack o0 \<and> permitSack theirs) \<and> SackEnabled o0"
  "permitSack (negotiate_server theirs o0) \<longleftrightarrow> permitSack o0 \<and> permitSack theirs"
  "timestampEnabled (negotiate_server theirs o0) = timestampEnabled theirs"
  "windowScaleShiftCount (negotiate_server theirs o0) = (if windowScaleShiftCount theirs = 0 then 0 else windowScaleShiftCount o0)"
  by (simp_all add: negotiate_server_def Let_def)

definition syn_params :: "string \<Rightarrow> packet \<Rightarrow> service \<Rightarrow> connectionParams" where
  "syn_params k p s = \<lparr> key = k, isServer = True, remoteAddr = SrcAddr p, localAddr = serviceAddr s,
     remotePort = uint (SourcePort p), localPort = port s \<rparr>"

definition half_open :: "u32 \<Rightarrow> ring_pool \<Rightarrow> string \<Rightarrow> packet \<Rightarrow> options \<Rightarrow> service \<Rightarrow> connection" where
  \<comment> \<open>the connection just before its SYN-ACK is sent\<close>
  "half_open isn rp k p theirs s =
     (let c0 = (newConnection isn rp (syn_params k p s) (svc_connConfig s))\<lparr> initServerState := SynReceived \<rparr>
      in c0\<lparr> tcpOptions := negotiate_server theirs (tcpOptions c0),
            lastAckNumber := SeqIncrement (SequenceNumber p), initialPeerSeq := SequenceNumber p \<rparr>)"

lemma half_open_fields [simp]:
  "params (half_open isn rp k p theirs s) = syn_params k p s" "sigOutputChan (half_open isn rp k p theirs s) = Some []"
  "initialSeq (half_open isn rp k p theirs s) = isn" "nextSequenceNumber (half_open isn rp k p theirs s) = isn"
  "lastAckNumber (half_open isn rp k p theirs s) = SeqIncrement (SequenceNumber p)"
  "initialPeerSeq (half_open isn rp k p theirs s) = SequenceNumber p" "isOpenConnection (half_open isn rp k p theirs s) = False"
  "isClosed (half_open isn rp k p theirs s) = False" "config (half_open isn rp k p theirs s) = svc_connConfig s"
  "newConnSignals (half_open isn rp k p theirs s) = 0"
  "tcpOptions (half_open isn rp k p theirs s)
     = negotiate_server theirs (tcpOptions (newConnection isn rp (syn_params k p s) (svc_connConfig s)))"
  by (simp_all add: half_open_def Let_def)

definition syn_conn :: "u32 \<Rightarrow> ring_pool \<Rightarrow> string \<Rightarrow> packet \<Rightarrow> options \<Rightarrow> service \<Rightarrow> connection" where
  "syn_conn isn rp k p theirs s =
     (startConnSignalTimer (initSendSynAck (half_open isn rp k p theirs s)))\<lparr> nextSequenceNumber := SeqIncrement isn \<rparr>"

lemma syn_conn_fields [simp]:
  "params (syn_conn isn rp k p theirs s) = syn_params k p s" "initServerState (syn_conn isn rp k p theirs s) = SynAckSent"
  "initialSeq (syn_conn isn rp k p theirs s) = isn" "nextSequenceNumber (syn_conn isn rp k p theirs s) = SeqIncrement isn"
  "lastAckNumber (syn_conn isn rp k p theirs s) = SeqIncrement (SequenceNumber p)"
  "initialPeerSeq (syn_conn isn rp k p theirs s) = SequenceNumber p" "isOpenConnection (syn_conn isn rp k p theirs s) = False"
  "isClosed (syn_conn isn rp k p theirs s) = False" "config (syn_conn isn rp k p theirs s) = svc_connConfig s"
  "newConnSignals (syn_conn isn rp k p theirs s) = 0"
  "connSignalTimer (syn_conn isn rp k p theirs s) = Some (AfterFunc (time_Second * ConnSignalRetryInterval (svc_connConfig s)))"
  "tcpOptions (syn_conn isn rp k p theirs s)
     = negotiate_server theirs (tcpOptions (newConnection isn rp (syn_params k p s) (svc_connConfig s)))"
  by (simp_all add: syn_conn_def startConnSignalTimer_def initSendSynAck_def send_signal_def)

lemma syn_conn_signal:
  "sigOutputChan (syn_conn isn rp k p theirs s)
     = Some [(signal_packet isn (SeqIncrement (SequenceNumber p)) (SYNFlag OR ACKFlag) (half_open isn rp k p theirs s))\<lparr> IsOpenConnection := False \<rparr>]"
  by (simp add: syn_conn_def startConnSignalTimer_def initSendSynAck_def send_signal_def)

lemma syn_opens:
  assumes "SrcAddr p = IPAddr ip" "TcpOptions p = Some theirs" "tempConnMap s = Some ts"
    and "k = to4_string ip @ '':'' @ dec (unat (SourcePort p))"
    and "map_get (connectionMap s) k = None" "map_get (tempConnMap s) k = None"
  shows "handleSynPacket isn rp p s
     = Return (s\<lparr> objs := objs s @ [(syn_conn isn rp k p theirs s, [])], tempConnMap := Some (ts @ [(k, length (objs s))]) \<rparr>)"
proof -
  have "AList.update k v ts = ts @ [(k, v)]" for v
    using assms(3,6) by (intro update_absent_string) (simp add: map_get_def)
  moreover have "nextSequenceNumber (startConnSignalTimer (initSendSynAck c)) = nextSequenceNumber c" for c
    by (simp add: startConnSignalTimer_def initSendSynAck_def send_signal_def)
  ultimately show ?thesis
    using assms by (simp add: handleSynPacket_def map_put_def half_open_def syn_params_def syn_conn_def Let_def del: half_open_fields)
qed

lemma syn_conn_inv: "conn_inv (syn_params k p s) (svc_connConfig s) (syn_conn isn rp k p theirs s)"
proof -
  let ?c0 = "newConnection isn rp (syn_params k p s) (svc_connConfig s)"
  have "ctl (half_open isn rp k p theirs s) = ctl ?c0" by (simp add: half_open_def ctl_def Let_def)
  moreover have "ctl (c\<lparr> nextSequenceNumber := x \<rparr>) = ctl c" for c x by (simp add: ctl_def)
  ultimately have "ctl (syn_conn isn rp k p theirs s) = ctl ?c0" by (simp add: syn_conn_def ctl_simps)
  then show ?thesis by (rule conn_inv_ctl [OF _ new_connection_inv])
qed

lemma syn_ignored:
  assumes "SrcAddr p = IPAddr ip" "k = to4_string ip @ '':'' @ dec (unat (SourcePort p))"
    and "map_get (connectionMap s) k \<noteq> None \<or> map_get (tempConnMap s) k \<noteq> None"
  shows "handleSynPacket isn rp p s = Return s"
  using assms by (auto simp: handleSynPacket_def Let_def)

section \<open>Every step keeps the maps in order\<close>

lemma svc_ok_syn:
  assumes "svc_ok s" "handleSynPacket isn rp p s = Return s'"
  shows "svc_ok s'"
proof -
  obtain ms ts where m: "svc_maps s ms ts" using assms(1) by (auto simp: svc_ok_def)
  obtain ip where ip: "SrcAddr p = IPAddr ip" using assms(2) by (cases "SrcAddr p") (auto simp: handleSynPacket_def)
  define k where "k = to4_string ip @ '':'' @ dec (unat (SourcePort p))"
  show ?thesis
  proof (cases "map_get (connectionMap s) k = None \<and> map_get (tempConnMap s) k = None")
    case False
    then show ?thesis using syn_ignored [OF ip k_def] assms by auto
  next
    case True
    obtain theirs where o: "TcpOptions p = Some theirs"
      using assms(2) True m ip
      by (cases "TcpOptions p") (auto simp: handleSynPacket_def k_def Let_def svc_maps_def map_put_def)
    have s': "s' = s\<lparr> objs := objs s @ [(syn_conn isn rp k p theirs s, [])], tempConnMap := Some (ts @ [(k, length (objs s))]) \<rparr>"
      using syn_opens [OF ip o _ k_def] True m assms(2) by (auto simp: svc_maps_def)
    have g: "grows s s'" by (simp add: grows_def obj_conn_def s' nth_append)
    have new: "obj_conn s' (length (objs s)) = syn_conn isn rp k p theirs s" "length (objs s') = Suc (length (objs s))"
      by (simp_all add: obj_conn_def s')
    have "entries_keyed s' (ts @ [(k, length (objs s))])"
      using entries_keyed_grows [OF _ g, of ts] m new by (auto simp: svc_maps_def entries_keyed_def syn_params_def)
    then have "svc_maps s' ms (ts @ [(k, length (objs s))])"
      using m True entries_keyed_grows [OF _ g, of ms] by (auto simp: svc_maps_def s' map_get_None)
    moreover have "conns_ok s'"
      using assms(1) syn_conn_inv [of k p s isn rp theirs]
      by (auto simp: svc_ok_def conns_ok_def s' obj_conn_def nth_append less_Suc_eq)
    ultimately show ?thesis unfolding svc_ok_def by blast
  qed
qed

lemma svc_ok_accept:
  assumes "svc_ok s" "Accept_turn s = Return (r, s')"
  shows "svc_ok s'"
proof -
  obtain ms ts where m: "svc_maps s ms ts" and ok: "conns_ok s" using assms(1) by (auto simp: svc_ok_def)
  show ?thesis
  proof (cases "newConnChannel s")
    case Nil
    then show ?thesis using assms by (auto simp: Accept_turn_def split: if_splits)
  next
    case (Cons i rest)
    define k where "k = key (params (obj_conn s i))"
    have i: "i < length (objs s)" using ok Cons by (simp add: conns_ok_def)
    have "svc_maps (s\<lparr> newConnChannel := rest \<rparr>) ms ts" by (rule maps_grow [OF m grows_same]) simp_all
    then have taken: "svc_ok (s\<lparr> newConnChannel := rest \<rparr>)"
      using ok Cons by (auto simp: svc_ok_def conns_ok_def obj_conn_def)
    let ?s = "s\<lparr> newConnChannel := rest, tempConnMap := Some (AList.delete k ts), connectionMap := Some (AList.update k i ms) \<rparr>"
    have g: "grows s ?s" by (rule grows_same) simp
    have "fst ` set (AList.update k i ms) \<inter> fst ` set (AList.delete k ts) = {}"
      using m unfolding dom_update keys_delete svc_maps_def by blast
    moreover have "entries_keyed ?s (AList.update k i ms)" "entries_keyed ?s (AList.delete k ts)"
      using m i entries_keyed_grows [OF _ g] by (simp_all add: svc_maps_def k_def entries_keyed_update entries_keyed_delete)
    ultimately have "svc_maps ?s (AList.update k i ms) (AList.delete k ts)"
      using m by (simp add: svc_maps_def distinct_update distinct_delete)
    then have moved: "svc_ok ?s" using ok Cons by (auto simp: svc_ok_def conns_ok_def obj_conn_def)
    show ?thesis
      using assms m Cons taken moved
      by (auto simp: Accept_turn_def Let_def map_put_def map_delete_def svc_maps_def k_def split: if_splits option.splits)
  qed
qed

lemma svc_ok_close_event:
  assumes "svc_ok s" "handleCloseConnections ev s = (stop, s')"
  shows "svc_ok s'"
proof -
  obtain ms ts where m: "svc_maps s ms ts" and ok: "conns_ok s" using assms(1) by (auto simp: svc_ok_def)
  have "svc_maps (s\<lparr> connectionMap := Some (AList.delete k ms) \<rparr>) (AList.delete k ms) ts"
    "svc_maps (s\<lparr> tempConnMap := Some (AList.delete k ts) \<rparr>) ms (AList.delete k ts)" for k
    using m entries_keyed_grows [OF _ grows_same, of s]
    by (auto simp: svc_maps_def distinct_delete keys_delete entries_keyed_delete)
  then have "svc_ok (s\<lparr> connectionMap := Some (AList.delete k ms) \<rparr>)" "svc_ok (s\<lparr> tempConnMap := Some (AList.delete k ts) \<rparr>)" for k
    using ok unfolding svc_ok_def by (auto simp: conns_ok_def obj_conn_def)
  moreover have "svc_ok (s\<lparr> connectionMap := Some ms \<rparr>)" "svc_ok (s\<lparr> tempConnMap := Some ts \<rparr>)"
    using assms(1) m by (cases s, simp add: svc_maps_def)+
  ultimately have "svc_ok (s\<lparr> connectionMap := snd (removeConnectionMapEntry (connectionMap s) c) \<rparr>)"
    "svc_ok (s\<lparr> tempConnMap := snd (removeConnectionMapEntry (tempConnMap s) c) \<rparr>)" for c
    using m by (auto simp: removeConnectionMapEntry_def map_delete_def svc_maps_def split: option.split)
  then show ?thesis
    using assms by (cases ev) (auto simp: handleCloseConnections_def split: prod.splits if_splits, metis snd_conv)
qed

lemma svc_ok_turn:
  assumes "svc_ok s" "i < length (objs s)" "conn_step (obj_conn s i) c'" "set ch \<subseteq> insert i (set (newConnChannel s))"
  shows "svc_ok ((set_conn i c' s)\<lparr> newConnChannel := ch \<rparr>)"
proof -
  obtain ms ts where m: "svc_maps s ms ts" and ok: "conns_ok s" using assms(1) by (auto simp: svc_ok_def)
  let ?s = "(set_conn i c' s)\<lparr> newConnChannel := ch \<rparr>"
  have "conn_inv (params (obj_conn s i)) (svc_connConfig s) (obj_conn s i)" using ok assms(2) by (simp add: conns_ok_def)
  then have c': "conn_inv (params (obj_conn s i)) (svc_connConfig s) c'" by (rule conn.kept [OF _ assms(3)])
  have o: "obj_conn ?s j = (if j = i then c' else obj_conn s j)" if "j < length (objs s)" for j
    using that by (simp add: obj_conn_def set_conn_def)
  have p: "params c' = params (obj_conn s i)" using c' by (simp add: conn_inv_def)
  have l: "length (objs ?s) = length (objs s)" by (simp add: set_conn_def)
  have "grows s ?s" using o p l by (simp add: grows_def)
  then have "svc_maps ?s ms ts" by (rule maps_grow [OF m]) (simp_all add: set_conn_def)
  moreover have "conns_ok ?s"
    using ok c' p assms(2,4) o l unfolding conns_ok_def by (auto simp: set_conn_def)
  ultimately show ?thesis unfolding svc_ok_def by blast
qed

lemma svc_ok_input:
  assumes "svc_ok s"
  shows "svc_ok (put_input i p s)"
proof -
  obtain ms ts where m: "svc_maps s ms ts" and ok: "conns_ok s" using assms(1) by (auto simp: svc_ok_def)
  have o: "obj_conn (put_input i p s) j = obj_conn s j" if "j < length (objs s)" for j
    using that by (cases "j = i") (simp_all add: obj_conn_def put_input_def)
  have "grows s (put_input i p s)" using o by (simp add: grows_def) (simp add: put_input_def)
  then have "svc_maps (put_input i p s) ms ts" by (rule maps_grow [OF m]) (simp_all add: put_input_def)
  moreover have "conns_ok (put_input i p s)" using ok o by (simp add: conns_ok_def) (simp add: put_input_def)
  ultimately show ?thesis unfolding svc_ok_def by blast
qed

lemma svc_ok_step:
  assumes ok: "svc_ok s" and "svc_step s s'"
  shows "svc_ok s'"
  using assms(2)
proof cases
  case (packet_in isn rp packet)
  show ?thesis
  proof (cases "has_flag packet SYNFlag \<and> \<not> has_flag packet ACKFlag")
    case True
    then show ?thesis using packet_in svc_ok_syn [OF ok] by (simp add: svc_handleIncomingPackets_def)
  next
    case False
    then have "(\<exists>i. s' = put_input i packet s) \<or> s' = s"
      using packet_in by (auto simp: svc_handleIncomingPackets_def handleOtherPacket_def Let_def go_simps
          split: addr.splits option.splits if_splits)
    then show ?thesis using ok svc_ok_input by blast
  qed
next
  case (accept r)
  then show ?thesis using svc_ok_accept [OF ok] by blast
next
  case (handshake_turn i ev stop c')
  have "conn_step (obj_conn s i) c'" using handshake_turn(2) by (rule conn_step.handshake)
  from svc_ok_turn [OF ok handshake_turn(1) this] show ?thesis unfolding handshake_turn(3) by auto
next
  case (conn_turn i c')
  from svc_ok_turn [OF ok conn_turn(1,2), of "newConnChannel s"] show ?thesis
    unfolding conn_turn(3) by (auto simp: set_conn_def)
next
  case (close_event ev stop)
  then show ?thesis using svc_ok_close_event [OF ok] by blast
qed

interpretation svc: machine svc_step svc_ok
  by unfold_locales (rule svc_ok_step)

section \<open>From the SYN-ACK to \<open>Accept\<close>\<close>

lemma other_packet_to:
  assumes "SrcAddr p = IPAddr ip" "To4 ip = Some b" "k = to4_string ip @ '':'' @ dec (unat (SourcePort p))"
    and "map_get (connectionMap s) k = None" "map_get (tempConnMap s) k = Some i"
  shows "handleOtherPacket p s = Return (if isClosed (obj_conn s i) then (ChunkReturned, s) else (Forwarded i, put_input i p s))"
  using assms ip_string_to4 [OF assms(2)]
  by (simp add: handleOtherPacket_def temp_target_def del: append.simps)

lemma handshake_ack:
  assumes "initServerState c = SynAckSent" "connSignalTimer c = Some t" "TcpOptions a = Some opts"
    and "\<not> has_flag a SYNFlag" "has_flag a ACKFlag"
  shows "\<exists>c'. handle3WayHandshake (HandshakePacket a) c = Return (True, c') \<and> isOpenConnection c'
    \<and> newConnSignals c' = newConnSignals c + 1 \<and> params c' = params c \<and> lastAckNumber c' = lastAckNumber c
    \<and> nextSequenceNumber c' = nextSequenceNumber c \<and> isClosed c' = isClosed c
    \<and> mss (tcpOptions c') = mss (tcpOptions c) \<and> SackEnabled (tcpOptions c') = SackEnabled (tcpOptions c)
    \<and> timestampEnabled (tcpOptions c') = timestampEnabled (tcpOptions c)"
proof -
  define c1 where "c1 = c\<lparr> connSignalTimer := Some (timer_Stop t) \<rparr>"
  define c2 where "c2 = c1\<lparr> newConnSignals := newConnSignals c1 + 1, initServerState := 0, isOpenConnection := True \<rparr>"
  define c3 where "c3 = (if windowScaleShiftCount (tcpOptions c2) > 0
      then c2\<lparr> windowSize := word_of_int (WindowSizeWithScale (config c2)) \<rparr> else c2)"
  define c4 where "c4 = (if timestampEnabled (tcpOptions c3)
      then c3\<lparr> tcpOptions := (tcpOptions c3)\<lparr> tsEchoReplyValue := timestamp opts \<rparr> \<rparr> else c3)"
  define c5 where "c5 = (if SackEnabled (tcpOptions c4) \<and> RetransmissionEnabled (config c4) then startResendTimer c4 else c4)"
  have ts: "(if timestampEnabled (tcpOptions c3) then case TcpOptions a of None \<Rightarrow> Panic
      | Some opts \<Rightarrow> Return (c3\<lparr> tcpOptions := (tcpOptions c3)\<lparr> tsEchoReplyValue := timestamp opts \<rparr> \<rparr>)
      else Return c3) = Return c4"
    using assms(3) by (simp add: c4_def)
  have "handshake_done a c1 = Return c5"
    unfolding handshake_done_def Let_def c2_def [symmetric] c3_def [symmetric] ts by (simp add: c5_def)
  then have "handle3WayHandshake (HandshakePacket a) c = Return (True, c5)"
    using assms by (simp add: handle3WayHandshake_def stopConnSignalTimer_def c1_def [symmetric])
  moreover have "isOpenConnection c3 \<and> newConnSignals c3 = newConnSignals c + 1 \<and> params c3 = params c
      \<and> lastAckNumber c3 = lastAckNumber c \<and> nextSequenceNumber c3 = nextSequenceNumber c \<and> isClosed c3 = isClosed c
      \<and> tcpOptions c3 = tcpOptions c"
    by (simp add: c1_def c2_def c3_def)
  moreover have "params c5 = params c3 \<and> lastAckNumber c5 = lastAckNumber c3 \<and> nextSequenceNumber c5 = nextSequenceNumber c3
      \<and> isClosed c5 = isClosed c3 \<and> isOpenConnection c5 = isOpenConnection c3 \<and> newConnSignals c5 = newConnSignals c3
      \<and> mss (tcpOptions c5) = mss (tcpOptions c3) \<and> SackEnabled (tcpOptions c5) = SackEnabled (tcpOptions c3)
      \<and> timestampEnabled (tcpOptions c5) = timestampEnabled (tcpOptions c3)"
    by (simp add: c4_def c5_def startResendTimer_def)
  ultimately show ?thesis by simp
qed

lemma accept_moves:
  assumes "\<not> svc_closeSignalClosed s" "newConnChannel s = i # rest" "key (params (obj_conn s i)) = k"
    and "map_of ts k = Some j" "tempConnMap s = Some ts" "connectionMap s = Some ms"
  shows "\<exists>s'. Accept_turn s = Return (Accepted i, s') \<and> map_get (connectionMap s') k = Some i
    \<and> map_get (tempConnMap s') k = None \<and> newConnChannel s' = rest \<and> objs s' = objs s"
proof -
  have "obj_conn (s\<lparr> newConnChannel := rest \<rparr>) i = obj_conn s i" for i by (simp add: obj_conn_def)
  then show ?thesis
    using assms by (simp add: Accept_turn_def map_get_def map_put_def map_delete_def update_conv delete_conv)
qed

section \<open>The last packet of a handshake\<close>

lemma ack_opens_and_accepts:
  assumes "tempConnMap s = Some ts" "map_of ts k = Some i" "connectionMap s = Some ms" "map_of ms k = None" "i < length (objs s)"
    and "obj_conn s i = c" "key (params c) = k" "initServerState c = SynAckSent" "connSignalTimer c \<noteq> None" "\<not> isClosed c"
    and "SrcAddr a = IPAddr ip" "To4 ip = Some b" "k = to4_string ip @ '':'' @ dec (unat (SourcePort a))"
    and "\<not> has_flag a SYNFlag" "has_flag a ACKFlag" "TcpOptions a \<noteq> None"
    and "newConnChannel s = []" "\<not> svc_closeSignalClosed s"
  shows "\<exists>s1 c' s2. svc_handleIncomingPackets isn rp a s = Return s1 \<and> snd (objs s1 ! i) = snd (objs s ! i) @ [a]
    \<and> handle3WayHandshake (HandshakePacket a) (obj_conn s1 i) = Return (True, c') \<and> isOpenConnection c'
    \<and> lastAckNumber c' = lastAckNumber c \<and> nextSequenceNumber c' = nextSequenceNumber c
    \<and> timestampEnabled (tcpOptions c') = timestampEnabled (tcpOptions c)
    \<and> SackEnabled (tcpOptions c') = SackEnabled (tcpOptions c) \<and> isClosed c' = isClosed c \<and> newConnChannel s1 = []
    \<and> mss (tcpOptions c') = mss (tcpOptions c) \<and> newConnSignals c' = newConnSignals c + 1
    \<and> Accept_turn ((set_conn i c' s1)\<lparr> newConnChannel := [i] \<rparr>) = Return (Accepted i, s2)
    \<and> map_get (connectionMap s2) k = Some i \<and> map_get (tempConnMap s2) k = None \<and> obj_conn s2 i = c'"
proof -
  have o: "handleOtherPacket a s = Return (Forwarded i, put_input i a s)"
    using other_packet_to [OF assms(11-13), of s i] assms(1-4,6,10) by (simp add: map_get_def)
  then have s1: "svc_handleIncomingPackets isn rp a s = Return (put_input i a s)"
    using assms(14) by (simp add: svc_handleIncomingPackets_def)
  have c: "obj_conn (put_input i a s) i = c" using assms(5,6) by (simp add: obj_conn_def put_input_def)
  obtain t opts where "connSignalTimer c = Some t" "TcpOptions a = Some opts" using assms(9,16) by blast
  from handshake_ack [OF assms(8) this assms(14,15)] obtain c' where
    c': "handle3WayHandshake (HandshakePacket a) c = Return (True, c')" "isOpenConnection c'"
    "newConnSignals c' = newConnSignals c + 1" "params c' = params c" "lastAckNumber c' = lastAckNumber c"
    "nextSequenceNumber c' = nextSequenceNumber c" "mss (tcpOptions c') = mss (tcpOptions c)"
    "timestampEnabled (tcpOptions c') = timestampEnabled (tcpOptions c)" "SackEnabled (tcpOptions c') = SackEnabled (tcpOptions c)"
    "isClosed c' = isClosed c" by blast
  let ?s = "(set_conn i c' (put_input i a s))\<lparr> newConnChannel := [i] \<rparr>"
  have i: "obj_conn ?s i = c'" using assms(5) by (simp add: obj_conn_def set_conn_def put_input_def)
  have "\<not> svc_closeSignalClosed ?s" "newConnChannel ?s = [i]" "tempConnMap ?s = Some ts" "connectionMap ?s = Some ms"
    using assms(1,3,18) by (simp_all add: set_conn_def put_input_def)
  with accept_moves [of ?s i "[]" k ts i ms] assms(2,7) i c'(4)
  obtain s2 where s2: "Accept_turn ?s = Return (Accepted i, s2)" "map_get (connectionMap s2) k = Some i"
    "map_get (tempConnMap s2) k = None" "objs s2 = objs ?s" by auto
  have "snd (objs (put_input i a s) ! i) = snd (objs s ! i) @ [a]" using assms(5) by (simp add: put_input_def)
  moreover have "obj_conn s2 i = c'" using s2(4) i by (simp add: obj_conn_def)
  moreover have "newConnChannel (put_input i a s) = []" using assms(17) by (simp add: put_input_def)
  ultimately show ?thesis using s1 c c' s2(1-3) by auto
qed

section \<open>Properties\<close>

text \<open>
  C7. A SYN from an address without a connection opens exactly one half-open connection under
  that address's key: it expects the number after the SYN's, its MSS is the smaller of the two
  sides' (0 if the SYN has none), SACK and the timestamp are on only if both sides allow them, and it
  has sent one SYN-ACK that acknowledges the SYN. A second SYN with the same key changes nothing.
\<close>

theorem syn_opens_one_connection:
  assumes "SrcAddr p = IPAddr ip" "TcpOptions p = Some theirs" "tempConnMap s = Some ts"
    and "k = to4_string ip @ '':'' @ dec (unat (SourcePort p))"
    and "map_get (connectionMap s) k = None" "map_get (tempConnMap s) k = None"
  shows "\<exists>s' c. handleSynPacket isn rp p s = Return s' \<and> objs s' = objs s @ [(c, [])]
    \<and> tempConnMap s' = Some (ts @ [(k, length (objs s))]) \<and> connectionMap s' = connectionMap s
    \<and> key (params c) = k \<and> initServerState c = SynAckSent \<and> lastAckNumber c = SeqIncrement (SequenceNumber p)
    \<and> nextSequenceNumber c = SeqIncrement isn \<and> \<not> isOpenConnection c
    \<and> mss (tcpOptions c) = (if mss theirs = 0 then 0 else min (mss theirs) (word_of_int (PreferredMSS (svc_connConfig s))))
    \<and> (SackEnabled (tcpOptions c) \<longleftrightarrow> SackPermitSupport (svc_connConfig s) \<and> permitSack theirs \<and> SackOptionSupport (svc_connConfig s))
    \<and> timestampEnabled (tcpOptions c) = timestampEnabled theirs
    \<and> (\<exists>sa. sigOutputChan c = Some [sa] \<and> Flags sa = SYNFlag OR ACKFlag \<and> SequenceNumber sa = isn
         \<and> AcknowledgmentNum sa = SeqIncrement (SequenceNumber p))
    \<and> handleSynPacket isn2 rp2 p s' = Return s'"
proof -
  let ?c = "syn_conn isn rp k p theirs s"
  let ?s = "s\<lparr> objs := objs s @ [(?c, [])], tempConnMap := Some (ts @ [(k, length (objs s))]) \<rparr>"
  have "map_get (tempConnMap ?s) k \<noteq> None" by (simp add: map_get_None)
  then have again: "handleSynPacket isn2 rp2 p ?s = Return ?s" by (intro syn_ignored [OF assms(1,4)]) blast
  have "handleSynPacket isn rp p s = Return ?s" by (rule syn_opens [OF assms])
  then show ?thesis
    by (intro exI [of _ ?s] exI [of _ ?c])
      (simp add: again syn_conn_signal negotiate_mss negotiate_flags syn_params_def)
qed

definition sample_service :: service where
  "sample_service = newService (IPAddr [10, 0, 0, 2]) 8901 DefaultConnectionConfig"

definition sample_syn :: packet where
  "sample_syn = zero_packet\<lparr> SrcAddr := IPAddr [10, 0, 0, 1], SourcePort := 40000, SequenceNumber := 100, Flags := SYNFlag,
     TcpOptions := Some (zero_options\<lparr> mss := 1200, permitSack := True, windowScaleShiftCount := 14 \<rparr>) \<rparr>"

lemma sample_key: "to4_string [10, 0, 0, 1] @ '':'' @ dec (unat (SourcePort sample_syn)) = ''10.0.0.1:40000''"
  by (simp add: to4_string_def ip_string_def To4_def sample_syn_def dec.simps) code_simp

theorem syn_opens_one_connection_witness:
  "\<exists>s' c. handleSynPacket 500 \<lparr> answers = [], returned = [] \<rparr> sample_syn sample_service = Return s'
    \<and> tempConnMap s' = Some [(''10.0.0.1:40000'', 0)] \<and> mss (tcpOptions c) = 1200 \<and> objs s' = [(c, [])]"
  using syn_opens_one_connection [of sample_syn "[10, 0, 0, 1]"
      "zero_options\<lparr> mss := 1200, permitSack := True, windowScaleShiftCount := 14 \<rparr>" sample_service "[]"
      "''10.0.0.1:40000''" 500 "\<lparr> answers = [], returned = [] \<rparr>" 0 "\<lparr> answers = [], returned = [] \<rparr>"] sample_key
  by (fastforce simp: sample_syn_def sample_service_def newService_def map_get_def DefaultConnectionConfig_def)

text \<open>
  C6. The rest of the server's handshake: the ACK that comes back from the address of a half-open
  connection is put on that connection's input, the handshake goroutine then opens it with
  unchanged numbers and options and announces it, and the next \<open>Accept\<close> returns it and moves it
  from the map of half-open connections to that of the open ones.
\<close>

theorem acknowledged_connection_accepted:
  assumes "tempConnMap s = Some ts" "map_of ts k = Some i" "connectionMap s = Some ms" "map_of ms k = None" "i < length (objs s)"
    and "obj_conn s i = c" "key (params c) = k" "initServerState c = SynAckSent" "connSignalTimer c \<noteq> None" "\<not> isClosed c"
    and "SrcAddr a = IPAddr ip" "To4 ip = Some b" "k = to4_string ip @ '':'' @ dec (unat (SourcePort a))"
    and "\<not> has_flag a SYNFlag" "has_flag a ACKFlag" "TcpOptions a \<noteq> None"
    and "newConnChannel s = []" "\<not> svc_closeSignalClosed s"
  shows "\<exists>s1 c' s2. svc_handleIncomingPackets isn rp a s = Return s1 \<and> snd (objs s1 ! i) = snd (objs s ! i) @ [a]
    \<and> handle3WayHandshake (HandshakePacket a) (obj_conn s1 i) = Return (True, c') \<and> isOpenConnection c'
    \<and> lastAckNumber c' = lastAckNumber c \<and> nextSequenceNumber c' = nextSequenceNumber c
    \<and> mss (tcpOptions c') = mss (tcpOptions c) \<and> newConnSignals c' = newConnSignals c + 1
    \<and> Accept_turn ((set_conn i c' s1)\<lparr> newConnChannel := [i] \<rparr>) = Return (Accepted i, s2)
    \<and> map_get (connectionMap s2) k = Some i \<and> map_get (tempConnMap s2) k = None \<and> obj_conn s2 i = c'"
  using ack_opens_and_accepts [OF assms] by blast

definition sample_rp :: ring_pool where
  "sample_rp = \<lparr> answers = [], returned = [] \<rparr>"

definition half_open_service :: service where
  \<comment> \<open>the sample service after the sample SYN\<close>
  "half_open_service =
     (case handleSynPacket 500 sample_rp sample_syn sample_service of Return s \<Rightarrow> s | _ \<Rightarrow> sample_service)"

definition sample_handshake_ack :: packet where
  "sample_handshake_ack = sample_syn\<lparr> Flags := ACKFlag, SequenceNumber := 101, AcknowledgmentNum := 501 \<rparr>"

lemma half_open_service_is:
  "\<exists>theirs. half_open_service = sample_service\<lparr> objs := [(syn_conn 500 sample_rp ''10.0.0.1:40000'' sample_syn theirs sample_service, [])],
     tempConnMap := Some [(''10.0.0.1:40000'', 0)] \<rparr>"
proof -
  have o: "SrcAddr sample_syn = IPAddr [10, 0, 0, 1]"
    "TcpOptions sample_syn = Some (zero_options\<lparr> mss := 1200, permitSack := True, windowScaleShiftCount := 14 \<rparr>)"
    "tempConnMap sample_service = Some []" "connectionMap sample_service = Some []" "objs sample_service = []"
    by (simp_all add: sample_syn_def sample_service_def newService_def)
  show ?thesis
    using syn_opens [OF o(1,2,3) sample_key [symmetric], of 500 sample_rp] o(3-5)
    by (intro exI) (simp add: half_open_service_def map_get_def)
qed

theorem acknowledged_connection_accepted_witness:
  "\<exists>s1 c' s2. svc_handleIncomingPackets 0 sample_rp sample_handshake_ack half_open_service = Return s1
    \<and> handle3WayHandshake (HandshakePacket sample_handshake_ack) (obj_conn s1 0) = Return (True, c')
    \<and> Accept_turn ((set_conn 0 c' s1)\<lparr> newConnChannel := [0] \<rparr>) = Return (Accepted 0, s2) \<and> isOpenConnection c'"
proof -
  obtain theirs where h: "half_open_service = sample_service\<lparr>
      objs := [(syn_conn 500 sample_rp ''10.0.0.1:40000'' sample_syn theirs sample_service, [])],
      tempConnMap := Some [(''10.0.0.1:40000'', 0)] \<rparr>"
    using half_open_service_is by blast
  have k: "''10.0.0.1:40000'' = to4_string [10, 0, 0, 1] @ '':'' @ dec (unat (SourcePort sample_handshake_ack))"
    using sample_key by (simp add: sample_handshake_ack_def)
  show ?thesis
    using acknowledged_connection_accepted [of half_open_service "[(''10.0.0.1:40000'', 0)]" "''10.0.0.1:40000''" 0 "[]"
        "obj_conn half_open_service 0" sample_handshake_ack "[10, 0, 0, 1]" "[10, 0, 0, 1]" 0 sample_rp, OF _ _ _ _ _ _ _ _ _ _ _ _ k]
    by (fastforce simp: h obj_conn_def syn_params_def sample_service_def newService_def sample_handshake_ack_def sample_syn_def
        has_flag_def To4_def)
qed

text \<open>
  C36. When a half-open connection's handshake fails (no ACK for any of its SYN-ACKs), its entry stays
  in the map of half-open connections: nothing tells the service. A later SYN from that address
  and port is ignored and any other packet from there is dropped, so the client cannot connect again.
\<close>

theorem failed_handshake_blocks_address:
  assumes "tempConnMap s = Some ts" "map_of ts k = Some i" "connectionMap s = Some ms" "map_of ms k = None" "i < length (objs s)"
    and "handle3WayHandshake SignalFailed (obj_conn s i) = Return (stop, c')"
    and "SrcAddr p = IPAddr ip" "To4 ip = Some b" "k = to4_string ip @ '':'' @ dec (unat (SourcePort p))"
  shows "stop \<and> connCloseSignals c' = connCloseSignals (obj_conn s i)
    \<and> svc_handleIncomingPackets isn rp p (set_conn i c' s) = Return (set_conn i c' s)"
proof -
  have c': "stop" "isClosed c'" "connCloseSignals c' = connCloseSignals (obj_conn s i)"
    using assms(6) by (auto simp: handle3WayHandshake_def Let_def split: option.splits)
  have s': "tempConnMap (set_conn i c' s) = Some ts" "connectionMap (set_conn i c' s) = Some ms" "obj_conn (set_conn i c' s) i = c'"
    using assms(1,3,5) by (simp_all add: set_conn_def obj_conn_def)
  have "handleSynPacket isn rp p (set_conn i c' s) = Return (set_conn i c' s)"
    using syn_ignored [OF assms(7,9)] s'(1) assms(2) by (simp add: map_get_def)
  moreover have "handleOtherPacket p (set_conn i c' s) = Return (ChunkReturned, set_conn i c' s)"
    using other_packet_to [OF assms(7-9), of "set_conn i c' s" i] s' assms(2,4) c'(2) by (simp add: map_get_def)
  ultimately show ?thesis using c' by (simp add: svc_handleIncomingPackets_def)
qed

theorem failed_handshake_blocks_address_witness:
  "\<exists>c'. svc_handleIncomingPackets 9 sample_rp sample_syn (set_conn 0 c' half_open_service) = Return (set_conn 0 c' half_open_service)"
proof -
  obtain theirs where h: "half_open_service = sample_service\<lparr>
      objs := [(syn_conn 500 sample_rp ''10.0.0.1:40000'' sample_syn theirs sample_service, [])],
      tempConnMap := Some [(''10.0.0.1:40000'', 0)] \<rparr>"
    using half_open_service_is by blast
  obtain c' where "handle3WayHandshake SignalFailed (obj_conn half_open_service 0) = Return (True, c')"
    by (cases "connSignalTimer (obj_conn half_open_service 0)") (auto simp: handle3WayHandshake_def)
  then show ?thesis
    using failed_handshake_blocks_address [of half_open_service "[(''10.0.0.1:40000'', 0)]" "''10.0.0.1:40000''" 0 "[]" True c'
        sample_syn "[10, 0, 0, 1]" "[10, 0, 0, 1]" 9 sample_rp] sample_key [symmetric]
    by (fastforce simp: h sample_service_def newService_def sample_syn_def To4_def)
qed



end
