(* ===== verification/Pconn.thy ===== *)
theory Pconn
  imports Service Port_Pool
begin

text \<open>
  \<open>lib/pconn.go\<close>: a protocol connection, which carries all connections between two addresses
  (client side) or all services of an address (server side): \<open>dial\<close>, the reading of frames from
  the raw socket and their dispatch, the writing of frames with the retry logic, the close
  handling. The raw socket and the packet filter are not part of the repository's own code: their
  answers are arguments. \<open>pc_objs\<close> and \<open>pc_services\<close> are the stores of the objects made, the
  maps hold indices into them. \<open>connMutexHeld\<close> lists the connections whose mutex a call left
  locked. The buffer of the reading loop is an argument, with the bytes read in it.
\<close>

section \<open>The code: state\<close>

record PcpProtocolConnConfig =
  IptableRuleDaley :: int
  pconn_PreferredMSS :: int
  PacketLostSimulation :: bool
  PConnTimeout :: int
  ClientPortUpper :: int
  ClientPortLower :: int
  ConnConfig :: ConnectionConfig
  VerifyChecksumOn :: bool
  PConnOutputQueue :: int
  DisableResendBackoff :: bool

definition DefaultPcpProtocolConnConfig :: PcpProtocolConnConfig where
  "DefaultPcpProtocolConnConfig =
     \<lparr> IptableRuleDaley = 200, pconn_PreferredMSS = 1440, PacketLostSimulation = False, PConnTimeout = 10,
       ClientPortUpper = 65535, ClientPortLower = 49152, ConnConfig = DefaultConnectionConfig,
       VerifyChecksumOn = False, PConnOutputQueue = 100, DisableResendBackoff = False \<rparr>"

definition pool_minPort :: int where [simp]: "pool_minPort = 32768"
definition pool_maxPort :: int where [simp]: "pool_maxPort = 60999"

record pconn =
  pc_config :: PcpProtocolConnConfig
  pc_key :: string
  pc_protocolId :: int
  pc_isServer :: bool
  pc_serverAddr :: addr
  pc_localAddr :: addr
  localPortPool :: port_pool
  pc_objs :: "(connection \<times> packet list) list"
  connMutexHeld :: "nat list"
  pc_connectionMap :: "(string \<times> nat) list option"
  pc_tempConnectionMap :: "(string \<times> nat) list option"
  pc_services :: "(service \<times> packet list) list"
  pc_serviceMap :: "(int \<times> nat) list option"
  emptyMapTimer :: "timer option"
  pc_isClosed :: bool
  pc_closeSignalClosed :: bool
  pConnCloseSignals :: nat
  pc_rpool :: ring_pool

definition newPcpProtocolConnection ::
  "bool \<Rightarrow> nat list \<Rightarrow> ring_pool \<Rightarrow> string \<Rightarrow> bool \<Rightarrow> int \<Rightarrow> addr \<Rightarrow> addr \<Rightarrow> PcpProtocolConnConfig \<Rightarrow> pconn option" where
  \<comment> \<open>\<open>None\<close> when the raw socket cannot be opened; \<open>perm\<close> is the permutation of the port pool\<close>
  "newPcpProtocolConnection socket_ok perm rp ky server proto saddr laddr cfg =
     (if \<not> socket_ok then None
      else Some \<lparr> pc_config = cfg, pc_key = ky, pc_protocolId = proto, pc_isServer = server,
        pc_serverAddr = saddr, pc_localAddr = laddr,
        localPortPool = newPortPool pool_minPort pool_maxPort perm, pc_objs = [], connMutexHeld = [],
        pc_connectionMap = Some [], pc_tempConnectionMap = Some [], pc_services = [], pc_serviceMap = Some [],
        emptyMapTimer = None, pc_isClosed = False, pc_closeSignalClosed = False, pConnCloseSignals = 0,
        pc_rpool = rp \<rparr>)"

definition pc_conn :: "pconn \<Rightarrow> nat \<Rightarrow> connection" where
  "pc_conn p i = fst (pc_objs p ! i)"

definition pc_set :: "nat \<Rightarrow> connection \<Rightarrow> pconn \<Rightarrow> pconn" where
  "pc_set i c p = p\<lparr> pc_objs := (pc_objs p)[i := (c, snd (pc_objs p ! i))] \<rparr>"

definition pc_input :: "nat \<Rightarrow> packet \<Rightarrow> pconn \<Rightarrow> pconn" where
  \<comment> \<open>\<open>conn.inputChannel <- packet\<close>\<close>
  "pc_input i q p = p\<lparr> pc_objs := (pc_objs p)[i := (fst (pc_objs p ! i), snd (pc_objs p ! i) @ [q])] \<rparr>"

definition svc_input :: "nat \<Rightarrow> packet \<Rightarrow> pconn \<Rightarrow> pconn" where
  \<comment> \<open>\<open>service.inputChannel <- packet\<close>\<close>
  "svc_input j q p = p\<lparr> pc_services := (pc_services p)[j := (fst (pc_services p ! j), snd (pc_services p ! j) @ [q])] \<rparr>"

section \<open>The code: dialling\<close>

definition dial_key :: "int \<Rightarrow> int \<Rightarrow> string" where
  "dial_key clientPort serverPort = dec_int clientPort @ '':'' @ dec_int serverPort"

definition dial_start ::
  "u32 \<Rightarrow> ring_pool \<Rightarrow> int \<Rightarrow> bool \<Rightarrow> int \<Rightarrow> ConnectionConfig \<Rightarrow> pconn \<Rightarrow> (nat option \<times> pconn) go" where
  \<comment> \<open>\<open>dial\<close> up to its wait for the SYN-ACK: the connection it waits with, or an error\<close>
  "dial_start isn rp now filter_ok serverPort connConfig p =
     (case allocatePort now (localPortPool p) of
        (Inl e, pool) \<Rightarrow> Fatal
      | (Inr clientPort, pool) \<Rightarrow>
          let connKey = dial_key clientPort serverPort;
              connParam = \<lparr> key = connKey, isServer = False, remoteAddr = pc_serverAddr p, localAddr = pc_localAddr p,
                remotePort = serverPort, localPort = clientPort \<rparr>;
              newConn = newConnection isn rp connParam connConfig;
              i = length (pc_objs p)
          in go_bind (map_put connKey i (pc_tempConnectionMap p)) (\<lambda>m.
               let p1 = p\<lparr> localPortPool := pool, pc_objs := pc_objs p @ [(newConn, [])], pc_tempConnectionMap := m \<rparr>
               in if \<not> filter_ok then Return (None, p1)
                  else let c1 = startConnSignalTimer (initSendSyn newConn);
                           c2 = c1\<lparr> nextSequenceNumber := SeqIncrement (nextSequenceNumber c1) \<rparr>
                       in Return (Some i, pc_set i c2 p1)))"

definition negotiate_client :: "options \<Rightarrow> options \<Rightarrow> options" where
  \<comment> \<open>the connection's options after the SYN-ACK's\<close>
  "negotiate_client theirs o0 =
     (let o1 = (if mss theirs > 0 then (if mss theirs < mss o0 then o0\<lparr> mss := mss theirs \<rparr> else o0)
                else o0\<lparr> mss := 0 \<rparr>);
          o2 = o1\<lparr> timestampEnabled := timestampEnabled theirs \<rparr>;
          o3 = o2\<lparr> permitSack := permitSack o2 \<and> permitSack theirs \<rparr>
      in o3\<lparr> SackEnabled := permitSack o3 \<and> SackEnabled o3 \<rparr>)"

definition dial_established :: "packet \<Rightarrow> options \<Rightarrow> connection \<Rightarrow> connection" where
  \<comment> \<open>the connection once the SYN-ACK is there: negotiated, its ACK sent, its resend timer started\<close>
  "dial_established packet theirs c1 =
     (let c2 = c1\<lparr> initClientState := SynAckReceived, tcpOptions := negotiate_client theirs (tcpOptions c1),
               lastAckNumber := SeqIncrement (SequenceNumber packet), initialPeerSeq := SequenceNumber packet,
               isOpenConnection := True \<rparr>;
          c3 = initSendAck c2;
          c4 = (if SackEnabled (tcpOptions c3) then startResendTimer c3 else c3)
      in c4\<lparr> initClientState := 0 \<rparr>)"

datatype dial_event = DialSignalFailed | DialPacket packet
datatype dial_result = DialWaits | DialFailed | Dialed

definition dial_turn :: "dial_event \<Rightarrow> nat \<Rightarrow> pconn \<Rightarrow> (dial_result \<times> pconn) go" where
  \<comment> \<open>one turn of the loop in which \<open>dial\<close> waits with connection \<open>i\<close>\<close>
  "dial_turn ev i p =
     (let c = pc_conn p i; connKey = key (params c) in
      case ev of
        DialSignalFailed \<Rightarrow>
          let c1 = c\<lparr> isClosed := True \<rparr>;
              p1 = p\<lparr> pc_tempConnectionMap := map_delete connKey (pc_tempConnectionMap p) \<rparr>;
              c2 = (case connSignalTimer c1 of Some t \<Rightarrow> c1\<lparr> connSignalTimer := None \<rparr> | None \<Rightarrow> c1)
          in Return (DialFailed, pc_set i c2 p1)
      | DialPacket packet \<Rightarrow>
          if Flags packet = SYNFlag OR ACKFlag
          then go_bind (stopConnSignalTimer c) (\<lambda>c1.
            case TcpOptions packet of None \<Rightarrow> Panic
            | Some theirs \<Rightarrow>
                go_bind (map_put connKey i (pc_connectionMap p)) (\<lambda>m.
                  Return (Dialed, pc_set i (dial_established packet theirs c1)
                    (p\<lparr> pc_tempConnectionMap := map_delete connKey (pc_tempConnectionMap p), pc_connectionMap := m \<rparr>))))
          else Return (DialWaits, p))"

section \<open>The code: incoming frames\<close>

datatype incoming_result =
  NothingRead | BadIpHeader | ChecksumFailed | SegmentTooShort | UnmarshalFailed | Delivered nat
| DataDiscarded | NoReceiver | BlockedOnMutex

definition checksum_passes :: "bytes \<Rightarrow> nat \<Rightarrow> nat \<Rightarrow> addr \<Rightarrow> addr \<Rightarrow> pconn \<Rightarrow> (bool \<times> bytes) go" where
  \<comment> \<open>the verdict on the frame in \<open>buffer[index:n]\<close>, and the buffer, in which the pseudo header
     overwrites the 12 bytes before it\<close>
  "checksum_passes buffer index n src dst p =
     (if VerifyChecksumOn (pc_config p)
      then if index < TcpPseudoHeaderLength then Panic
           else go_bind (VerifyChecksum (slice buffer (index - TcpPseudoHeaderLength) n) src dst (word_of_int (pc_protocolId p)))
             (\<lambda>(ok, data). Return (ok, copy_at (index - TcpPseudoHeaderLength) data buffer))
      else Return (True, buffer))"

definition client_temp :: "nat \<Rightarrow> string \<Rightarrow> bytes \<Rightarrow> nat \<Rightarrow> pconn \<Rightarrow> (incoming_result \<times> pconn) go option" where
  \<comment> \<open>the second half of the dispatch: a connection that is being dialled\<close>
  "client_temp fuel connKey frame len p =
     (case map_get (pc_tempConnectionMap p) connKey of
        None \<Rightarrow> Some (Return (NoReceiver, p))
      | Some i \<Rightarrow>
          if isClosed (pc_conn p i) then Some (Return (NoReceiver, p))
          else case Unmarshal fuel zero_packet frame len (pc_serverAddr p) (pc_localAddr p) (pc_rpool p) of
              None \<Rightarrow> None
            | Some Panic \<Rightarrow> Some Panic
            | Some Fatal \<Rightarrow> Some Fatal
            | Some (Return (Some e, packet, rp)) \<Rightarrow> Some (Return (UnmarshalFailed, p\<lparr> pc_rpool := rp \<rparr>))
            | Some (Return (None, packet, rp)) \<Rightarrow>
                if length (Payload packet) = 0 \<and> AcknowledgmentNum packet - initialSeq (pc_conn p i) < 2
                then Some (Return (Delivered i, pc_input i packet (p\<lparr> pc_rpool := rp \<rparr>)))
                else if length (Payload packet) > 0
                then Some (Return (DataDiscarded, p\<lparr> pc_rpool := snd (ReturnChunk packet rp) \<rparr>))
                else Some (Return (NoReceiver, p\<lparr> pc_rpool := rp \<rparr>)))"

definition client_dispatch :: "nat \<Rightarrow> bytes \<Rightarrow> nat \<Rightarrow> pconn \<Rightarrow> (incoming_result \<times> pconn) go option" where
  "client_dispatch fuel frame len p =
     (if len < 4 then Some (Return (SegmentTooShort, p))
      else
        let sourcePort = Uint16 (slice frame 0 2);
            destPort = Uint16 (slice frame 2 4);
            connKey = dec (unat destPort) @ '':'' @ dec (unat sourcePort)
        in case map_get (pc_connectionMap p) connKey of
            None \<Rightarrow> client_temp fuel connKey frame len p
          | Some i \<Rightarrow>
              if i \<in> set (connMutexHeld p) then Some (Return (BlockedOnMutex, p))
              else if isClosed (pc_conn p i) then client_temp fuel connKey frame len p
              else case Unmarshal fuel zero_packet frame len (pc_serverAddr p) (pc_localAddr p) (pc_rpool p) of
                  None \<Rightarrow> None
                | Some Panic \<Rightarrow> Some Panic
                | Some Fatal \<Rightarrow> Some Fatal
                | Some (Return (Some e, packet, rp)) \<Rightarrow>
                    Some (Return (UnmarshalFailed, p\<lparr> pc_rpool := rp, connMutexHeld := i # connMutexHeld p \<rparr>))
                | Some (Return (None, packet, rp)) \<Rightarrow>
                    Some (Return (Delivered i, pc_input i packet (p\<lparr> pc_rpool := rp \<rparr>))))"

definition clientProcessingIncomingPacket ::
  "nat \<Rightarrow> bytes \<Rightarrow> nat option \<Rightarrow> pconn \<Rightarrow> (incoming_result \<times> pconn) go option" where
  \<comment> \<open>\<open>rd\<close>: the number of bytes of the IP frame read, \<open>None\<close> for a timeout or an error\<close>
  "clientProcessingIncomingPacket fuel buffer rd p =
     (case rd of None \<Rightarrow> Some (Return (NothingRead, p))
      | Some n \<Rightarrow>
          (case ExtractIpPayload (take n buffer) of
            Inl e \<Rightarrow> Some (Return (BadIpHeader, p))
          | Inr index \<Rightarrow>
              (case checksum_passes buffer index n (pc_serverAddr p) (pc_localAddr p) p of
                Panic \<Rightarrow> Some Panic
              | Fatal \<Rightarrow> Some Fatal
              | Return (False, buffer') \<Rightarrow> Some (Return (ChecksumFailed, p))
              | Return (True, buffer') \<Rightarrow> client_dispatch fuel (drop index buffer') (n - index) p)))"

definition server_dispatch :: "packet \<Rightarrow> pconn \<Rightarrow> (incoming_result \<times> pconn) go" where
  \<comment> \<open>a service's input channel is closed when its close signal is\<close>
  "server_dispatch packet p =
     (case map_get (pc_serviceMap p) (uint (DestinationPort packet)) of
        None \<Rightarrow> Return (NoReceiver, p\<lparr> pc_rpool := snd (ReturnChunk packet (pc_rpool p)) \<rparr>)
      | Some j \<Rightarrow>
          let srv = fst (pc_services p ! j) in
          if svc_isClosed srv \<and> chunk packet \<noteq> None
          then Return (NoReceiver, p\<lparr> pc_rpool := snd (ReturnChunk packet (pc_rpool p)) \<rparr>)
          else if svc_closeSignalClosed srv then Panic
          else Return (Delivered j, svc_input j packet p))"

definition serverProcessingIncomingPacket ::
  "nat \<Rightarrow> bytes \<Rightarrow> (nat \<times> addr) option \<Rightarrow> pconn \<Rightarrow> (incoming_result \<times> pconn) go option" where
  \<comment> \<open>\<open>rd\<close>: the number of bytes of the segment read behind the first 12 bytes of the buffer, and
     the sender\<close>
  "serverProcessingIncomingPacket fuel buffer rd p =
     (case rd of None \<Rightarrow> Some (Return (NothingRead, p))
      | Some (n, sender) \<Rightarrow>
          (case checksum_passes buffer TcpPseudoHeaderLength (TcpPseudoHeaderLength + n) sender (pc_serverAddr p) p of
            Panic \<Rightarrow> Some Panic
          | Fatal \<Rightarrow> Some Fatal
          | Return (False, buffer') \<Rightarrow> Some (Return (ChecksumFailed, p))
          | Return (True, buffer') \<Rightarrow>
              (case Unmarshal fuel zero_packet (drop TcpPseudoHeaderLength buffer') n sender (pc_serverAddr p) (pc_rpool p) of
                None \<Rightarrow> None
              | Some Panic \<Rightarrow> Some Panic
              | Some Fatal \<Rightarrow> Some Fatal
              | Some (Return (Some e, packet, rp)) \<Rightarrow> Some (Return (UnmarshalFailed, p\<lparr> pc_rpool := rp \<rparr>))
              | Some (Return (None, packet, rp)) \<Rightarrow> Some (server_dispatch packet (p\<lparr> pc_rpool := rp \<rparr>)))))"

definition pc_handleIncomingPackets ::
  "nat \<Rightarrow> bytes \<Rightarrow> (nat \<times> addr) option \<Rightarrow> pconn \<Rightarrow> (incoming_result \<times> pconn) go option" where
  \<comment> \<open>one turn of the reading loop while the connection is not closed\<close>
  "pc_handleIncomingPackets fuel buffer rd p =
     (if pc_isServer p then serverProcessingIncomingPacket fuel buffer rd p
      else clientProcessingIncomingPacket fuel buffer (map_option fst rd) p)"

section \<open>The code: outgoing packets\<close>

datatype write_answer = WriteOK | NoBuffers bool | OtherError
  \<comment> \<open>of the raw socket; \<open>NoBuffers closing\<close>: out of buffers, and whether the connection is closed
     during the wait before the next try\<close>

datatype write_end = Written | Dropped | ClosedWhileWaiting

fun write_tries :: "nat \<Rightarrow> (nat \<Rightarrow> write_answer) \<Rightarrow> nat \<Rightarrow> write_end \<times> nat" where
  \<comment> \<open>the retry loop with \<open>left\<close> tries left, and the number of tries made\<close>
  "write_tries 0 answer i = (Dropped, i)"
| "write_tries (Suc left) answer i =
     (case answer i of
        WriteOK \<Rightarrow> (Written, i + 1)
      | OtherError \<Rightarrow> (Dropped, i + 1)
      | NoBuffers closing \<Rightarrow>
          if left = 0 then (Dropped, i + 1)
          else if closing then (ClosedWhileWaiting, i + 1)
          else write_tries left answer (i + 1))"

definition maxRetries :: nat where "maxRetries = 5"

definition write_frame :: "bool \<Rightarrow> (nat \<Rightarrow> write_answer) \<Rightarrow> write_end" where
  "write_frame disableBackoff answer =
     (if \<not> disableBackoff then fst (write_tries maxRetries answer 0)
      else case answer 0 of WriteOK \<Rightarrow> Written | _ \<Rightarrow> Dropped)"

record outgoing =
  out_count :: int
  out_lostCount :: int
  out_packetLost :: bool
  frameBytes :: bytes
  written :: "bytes list"

definition new_outgoing :: "PcpProtocolConnConfig \<Rightarrow> outgoing" where
  "new_outgoing cfg =
     \<lparr> out_count = 0, out_lostCount = 0, out_packetLost = False,
       frameBytes = replicate (nat (pconn_PreferredMSS cfg) + TcpHeaderLength + TcpOptionsMaxLength + TcpPseudoHeaderLength) 0,
       written = [] \<rparr>"

definition next_outgoing :: "bool \<Rightarrow> 'p list \<Rightarrow> 'p list \<Rightarrow> ('p \<times> 'p list \<times> 'p list) option" where
  \<comment> \<open>what the loop takes: signalling packets before the others\<close>
  "next_outgoing closed sig out =
     (if closed then None
      else case sig of q # rest \<Rightarrow> Some (q, rest, out)
      | [] \<Rightarrow> (case out of q # rest \<Rightarrow> Some (q, [], rest) | [] \<Rightarrow> None))"

definition simulate_loss :: "bool \<Rightarrow> int \<Rightarrow> outgoing \<Rightarrow> outgoing" where
  \<comment> \<open>\<open>rnd\<close> is \<open>rand.Intn(10)\<close>\<close>
  "simulate_loss on rnd s =
     (if on
      then let s1 = (if out_count s = 0 then s\<lparr> out_lostCount := rnd \<rparr> else s)
           in if out_count s1 = out_lostCount s1 then s1\<lparr> out_lostCount := 100, out_packetLost := True \<rparr> else s1
      else s)"

definition dispose_packet :: "int \<Rightarrow> packet \<Rightarrow> connection \<Rightarrow> connection go" where
  \<comment> \<open>after the write: the chunk goes back to the pool or the packet into the store for resending\<close>
  "dispose_packet now packet c =
     (if \<not> RetransmissionEnabled (config c) \<or> length (Payload packet) = 0
         \<or> \<not> SackEnabled (tcpOptions c) \<or> IsKeepAliveMassege packet
      then Return (return_chunk_of packet c)
      else case GetSentPacket (SequenceNumber packet) (resendPackets c) of
          None \<Rightarrow> go_bind (AddSentPacket now packet (resendPackets c)) (\<lambda>m. Return (c\<lparr> resendPackets := m \<rparr>))
        | Some _ \<Rightarrow> Return (return_chunk_of packet c))"

datatype out_result = OutContinues connection outgoing | OutEnds

definition handleOutgoingPackets ::
  "PcpProtocolConnConfig \<Rightarrow> int \<Rightarrow> int \<Rightarrow> int \<Rightarrow> int \<Rightarrow> (nat \<Rightarrow> write_answer) \<Rightarrow> packet \<Rightarrow> connection \<Rightarrow> outgoing \<Rightarrow> out_result go" where
  \<comment> \<open>one packet, of connection \<open>c\<close>: a packet's options are those of its connection now\<close>
  "handleOutgoingPackets cfg proto micros now rnd answer packet0 c s =
     (let packet = packet0\<lparr> TcpOptions := Some (tcpOptions c) \<rparr>;
          s1 = simulate_loss (PacketLostSimulation cfg) rnd s
      in go_bind (if \<not> out_packetLost s1
           then go_bind (Marshal micros packet (word_of_int proto) (frameBytes s1)) (\<lambda>r.
             case r of Inl e \<Rightarrow> Fatal
             | Inr (n, buffer) \<Rightarrow>
                 let s2 = s1\<lparr> frameBytes := buffer \<rparr>
                 in case write_frame (DisableResendBackoff cfg) answer of
                     Written \<Rightarrow> Return (Some (s2\<lparr> written := written s2 @ [take n (drop TcpPseudoHeaderLength buffer)] \<rparr>))
                   | Dropped \<Rightarrow> Return (Some s2)
                   | ClosedWhileWaiting \<Rightarrow> Return None)
           else Return (Some s1)) (\<lambda>r.
         case r of None \<Rightarrow> Return OutEnds
         | Some s3 \<Rightarrow>
             let s4 = (if PacketLostSimulation cfg
                  then s3\<lparr> out_count := (out_count s3 + 1) mod 10, out_packetLost := False \<rparr> else s3)
             in go_bind (dispose_packet now packet c) (\<lambda>c1. Return (OutContinues c1 s4))))"

section \<open>The code: closing\<close>

datatype pc_close_event = PConnClosed | PcConnClosed nat | PcServiceClosed nat

definition map_size :: "('k \<times> 'v) list option \<Rightarrow> nat" where
  "map_size m = (case m of None \<Rightarrow> 0 | Some kvs \<Rightarrow> length kvs)"

definition pc_handleCloseConnection :: "pc_close_event \<Rightarrow> pconn \<Rightarrow> (bool \<times> pconn) go" where
  \<comment> \<open>one event: whether the goroutine returns, and the protocol connection\<close>
  "pc_handleCloseConnection ev p =
     (case ev of
        PConnClosed \<Rightarrow> Return (True, p)
      | PcConnClosed i \<Rightarrow>
          let k = key (params (pc_conn p i)) in
          (case map_get (pc_connectionMap p) k of
            None \<Rightarrow> Return (False, p)
          | Some _ \<Rightarrow>
              let p1 = p\<lparr> pc_connectionMap := map_delete k (pc_connectionMap p) \<rparr>
              in go_bind (if \<not> isServer (params (pc_conn p i))
                   then (case returnPort (localPort (params (pc_conn p i))) (localPortPool p1) of
                       (Some e, pool) \<Rightarrow> Fatal
                     | (None, pool) \<Rightarrow> Return (p1\<lparr> localPortPool := pool \<rparr>))
                   else Return p1) (\<lambda>p2.
                 Return (False, if map_size (pc_connectionMap p2) = 0
                   then p2\<lparr> emptyMapTimer := Some (AfterFunc (time_Second * PConnTimeout (pc_config p2))) \<rparr> else p2)))
      | PcServiceClosed j \<Rightarrow>
          let prt = port (fst (pc_services p ! j)) in
          (case map_get (pc_serviceMap p) prt of
            None \<Rightarrow> Return (False, p)
          | Some _ \<Rightarrow> Return (False, p\<lparr> pc_serviceMap := map_delete prt (pc_serviceMap p) \<rparr>)))"

definition begin_closes :: "nat list \<Rightarrow> pconn \<Rightarrow> pconn" where
  \<comment> \<open>\<open>CloseAsGoRoutine\<close> of each, up to its wait for the peer\<close>
  "begin_closes is p = fold (\<lambda>i p. pc_set i (Close (pc_conn p i)) p) is p"

fun await_closes :: "nat list \<Rightarrow> pconn \<Rightarrow> pconn go" where
  \<comment> \<open>the end of the waits, which run out\<close>
  "await_closes [] p = Return p"
| "await_closes (i # is) p =
     go_bind (Close_timed_out (pc_conn p i)) (\<lambda>c. await_closes is (pc_set i c p))"

fun close_services :: "nat list \<Rightarrow> pconn \<Rightarrow> pconn go" where
  "close_services [] p = Return p"
| "close_services (j # js) p =
     go_bind (svc_Close (fst (pc_services p ! j))) (\<lambda>s.
       close_services js (p\<lparr> pc_services := (pc_services p)[j := (s, snd (pc_services p ! j))] \<rparr>))"

definition pc_Close_begin :: "pconn \<Rightarrow> pconn" where
  \<comment> \<open>\<open>Close\<close> up to the wait for its connections\<close>
  "pc_Close_begin p =
     (if pc_isClosed p then p
      else let p1 = p\<lparr> pc_isClosed := True \<rparr>
           in (begin_closes (map_values (pc_connectionMap p1)) p1)\<lparr> pc_connectionMap := None \<rparr>)"

definition pc_Close :: "pconn \<Rightarrow> pconn go" where
  "pc_Close p =
     (if pc_isClosed p then Return p
      else
        go_bind (await_closes (map_values (pc_connectionMap p)) (pc_Close_begin p)) (\<lambda>p2.
        go_bind (close_services (map_values (pc_serviceMap p2)) p2) (\<lambda>p3.
        let p4 = p3\<lparr> pc_serviceMap := None \<rparr> in
        if pc_closeSignalClosed p4 then Panic
        else Return (p4\<lparr> pc_closeSignalClosed := True, emptyMapTimer := None,
               pConnCloseSignals := pConnCloseSignals p4 + 1 \<rparr>))))"

definition emptyMapTimer_fired :: "pconn \<Rightarrow> pconn go" where
  "emptyMapTimer_fired p =
     (case emptyMapTimer p of None \<Rightarrow> Return p
      | Some t \<Rightarrow>
          let p1 = p\<lparr> emptyMapTimer := Some (timer_Stop t) \<rparr>
          in if map_size (pc_connectionMap p1) = 0 then pc_Close p1 else Return p1)"

end
