(* ===== verification/Pconn_Ports.thy ===== *)
theory Pconn_Ports
  imports Pconn
begin

text \<open>
  The local ports of a client's protocol connection over all its runs: every connection in its
  maps holds a port of its own, and the port of a connection that ends goes back to the pool. The
  accounting is that of the interface \<open>fifo_pool\<close>, which the port ring interprets. A failed
  dial keeps its port.
\<close>

section \<open>Runs of a protocol connection\<close>

inductive pc_step :: "pconn \<Rightarrow> pconn \<Rightarrow> bool" where
  dial: "dial_start isn rp now filter_ok serverPort cfg p = Return (r, p') \<Longrightarrow> pc_step p p'"
| dial_wait: "i < length (pc_objs p) \<Longrightarrow> map_get (pc_tempConnectionMap p) (key (params (pc_conn p i))) = Some i \<Longrightarrow>
    dial_turn ev i p = Return (d, p') \<Longrightarrow> pc_step p p'"
| frame_in: "pc_handleIncomingPackets fuel buffer rd p = Some (Return (ir, p')) \<Longrightarrow> pc_step p p'"
| conn_turn: "i < length (pc_objs p) \<Longrightarrow> conn_step (pc_conn p i) c' \<Longrightarrow> p' = pc_set i c' p \<Longrightarrow> pc_step p p'"
| packet_out: "i < length (pc_objs p) \<Longrightarrow>
    handleOutgoingPackets (pc_config p) (pc_protocolId p) micros now rnd answer q (pc_conn p i) s = Return (OutContinues c' s') \<Longrightarrow>
    p' = pc_set i c' p \<Longrightarrow> pc_step p p'"
| conn_end: "i < length (pc_objs p) \<Longrightarrow> pc_handleCloseConnection (PcConnClosed i) p = Return (stop, p') \<Longrightarrow> pc_step p p'"
| service_end: "pc_handleCloseConnection (PcServiceClosed j) p = Return (stop, p') \<Longrightarrow> pc_step p p'"
| timer: "emptyMapTimer_fired p = Return p' \<Longrightarrow> pc_step p p'"
| closing: "pc_Close p = Return p' \<Longrightarrow> pc_step p p'"

section \<open>Counting the ports in the maps\<close>

definition entries :: "('k \<times> nat) list option \<Rightarrow> ('k \<times> nat) list" where
  "entries m = (case m of None \<Rightarrow> [] | Some kvs \<Rightarrow> kvs)"

lemma entries_simps [simp]: "entries None = []" "entries (Some kvs) = kvs"
  by (simp_all add: entries_def)

lemma entries_delete [simp]: "entries (map_delete k m) = AList.delete k (entries m)"
  by (cases m) (simp_all add: map_delete_def)

lemma entries_get: "map_get m k = map_of (entries m) k"
  by (cases m) (simp_all add: map_get_def)

definition ports_of :: "(nat \<Rightarrow> int) \<Rightarrow> ('k \<times> nat) list \<Rightarrow> int multiset" where
  "ports_of f kvs = image_mset (\<lambda>(k, i). f i) (mset kvs)"

lemma ports_of_simps [simp]:
  "ports_of f [] = {#}" "ports_of f ((k, i) # kvs) = add_mset (f i) (ports_of f kvs)"
  by (simp_all add: ports_of_def)

lemma ports_of_delete: "ports_of f (AList.delete k kvs) \<subseteq># ports_of f kvs"
  unfolding ports_of_def AList.delete_eq by (intro image_mset_subseteq_mono) (simp add: mset_filter)

lemma ports_of_take: "map_of kvs k = Some i \<Longrightarrow> add_mset (f i) (ports_of f (AList.delete k kvs)) \<subseteq># ports_of f kvs"
proof (induction kvs)
  case (Cons e kvs)
  obtain k' j where e: "e = (k', j)" by fastforce
  show ?case
  proof (cases "k' = k")
    case True
    then show ?thesis using Cons.prems e ports_of_delete [of f k kvs] by simp
  next
    case False
    then show ?thesis using Cons e by (simp add: add_mset_commute [of "f i"])
  qed
qed simp

lemma ports_of_update: "ports_of f (AList.update k i kvs) \<subseteq># add_mset (f i) (ports_of f kvs)"
proof (induction kvs)
  case (Cons e kvs)
  obtain k' j where e: "e = (k', j)" by fastforce
  then show ?case using Cons by (cases "k' = k") (simp_all add: add_mset_commute [of "f i"])
qed simp

lemma ports_of_cong: "(\<And>k i. (k, i) \<in> set kvs \<Longrightarrow> f i = g i) \<Longrightarrow> ports_of f kvs = ports_of g kvs"
  unfolding ports_of_def by (intro image_mset_cong) auto

section \<open>The invariant\<close>

definition lport :: "pconn \<Rightarrow> nat \<Rightarrow> int" where
  "lport p i = localPort (params (pc_conn p i))"

definition dialled :: "connection \<Rightarrow> bool" where
  "dialled c \<longleftrightarrow> key (params c) = dial_key (localPort (params c)) (remotePort (params c)) \<and> \<not> isServer (params c)
     \<and> conn_inv (params c) (config c) c"

definition entries_ok :: "pconn \<Rightarrow> (string \<times> nat) list \<Rightarrow> bool" where
  "entries_ok p kvs \<longleftrightarrow> (\<forall>(k, i) \<in> set kvs. i < length (pc_objs p) \<and> key (params (pc_conn p i)) = k)"

definition pc_ok :: "int multiset \<Rightarrow> pconn \<Rightarrow> bool" where
  "pc_ok U p \<longleftrightarrow> (\<exists>H. ring.accounted U (localPortPool p) H
       \<and> ports_of (lport p) (entries (pc_connectionMap p)) + ports_of (lport p) (entries (pc_tempConnectionMap p)) \<subseteq># H)
     \<and> (\<forall>i < length (pc_objs p). dialled (pc_conn p i))
     \<and> entries_ok p (entries (pc_connectionMap p)) \<and> entries_ok p (entries (pc_tempConnectionMap p))"

lemma entries_ok_Nil [simp]: "entries_ok p []"
  by (simp add: entries_ok_def)

lemma dial_key_port: "dial_key a b = dial_key a' b' \<Longrightarrow> a = a'"
  using key_split [of "dec_int a" "dec_int b" "dec_int a'" "dec_int b'"] colon_not_in_dec_int
  by (auto simp: dial_key_def dest: dec_int_inj)

lemma entries_ok_delete: "entries_ok p kvs \<Longrightarrow> entries_ok p (AList.delete k kvs)"
  by (auto simp: entries_ok_def AList.delete_eq)

lemma entries_ok_update:
  "entries_ok p kvs \<Longrightarrow> i < length (pc_objs p) \<Longrightarrow> key (params (pc_conn p i)) = k \<Longrightarrow> entries_ok p (AList.update k i kvs)"
  by (induction kvs) (auto simp: entries_ok_def)

definition conns_kept :: "pconn \<Rightarrow> pconn \<Rightarrow> bool" where
  \<comment> \<open>connections are only added, each keeps its parameters, all are sound\<close>
  "conns_kept p p' \<longleftrightarrow> length (pc_objs p) \<le> length (pc_objs p')
     \<and> (\<forall>i < length (pc_objs p). params (pc_conn p' i) = params (pc_conn p i))
     \<and> (\<forall>i < length (pc_objs p'). dialled (pc_conn p' i))"

lemma entries_ok_kept: "entries_ok p kvs \<Longrightarrow> conns_kept p p' \<Longrightarrow> entries_ok p' kvs"
  by (fastforce simp: entries_ok_def conns_kept_def)

lemma ports_of_kept: "entries_ok p kvs \<Longrightarrow> conns_kept p p' \<Longrightarrow> ports_of (lport p') kvs = ports_of (lport p) kvs"
  by (rule ports_of_cong) (auto simp: entries_ok_def conns_kept_def lport_def)

lemma pc_ok_kept:
  assumes "pc_ok U p" "conns_kept p p'" "localPortPool p' = localPortPool p"
    and "pc_connectionMap p' = pc_connectionMap p \<or> pc_connectionMap p' = None"
    and "pc_tempConnectionMap p' = pc_tempConnectionMap p \<or> pc_tempConnectionMap p' = map_delete k (pc_tempConnectionMap p)"
  shows "pc_ok U p'"
proof -
  let ?m = "entries (pc_connectionMap p)" and ?t = "entries (pc_tempConnectionMap p)"
  let ?m' = "entries (pc_connectionMap p')" and ?t' = "entries (pc_tempConnectionMap p')"
  obtain H where h: "ring.accounted U (localPortPool p) H" "ports_of (lport p) ?m + ports_of (lport p) ?t \<subseteq># H"
    and ok: "entries_ok p ?m" "entries_ok p ?t" using assms(1) by (auto simp: pc_ok_def)
  have ok': "entries_ok p ?m'" "entries_ok p ?t'"
    using ok entries_ok_delete assms(4,5) by auto
  have "ports_of (lport p) ?m' \<subseteq># ports_of (lport p) ?m" "ports_of (lport p) ?t' \<subseteq># ports_of (lport p) ?t"
    using assms(4,5) ports_of_delete by auto
  then have "ports_of (lport p') ?m' + ports_of (lport p') ?t' \<subseteq># H"
    using h(2) ok' by (simp add: ports_of_kept [OF _ assms(2)]) (meson subset_mset.add_mono subset_mset.order_trans)
  then show ?thesis
    using h(1) assms(2,3) entries_ok_kept [OF _ assms(2)] ok' unfolding pc_ok_def by (auto simp: conns_kept_def)
qed

section \<open>Every step keeps the invariant\<close>

lemma dialled_ctl: "ctl c' = ctl c \<Longrightarrow> dialled c \<Longrightarrow> dialled c'"
  using conn_inv_ctl [of c' c "params c" "config c"] by (auto simp: dialled_def ctl_def)

lemma dialled_inv: "dialled c \<Longrightarrow> conn_inv (params c) (config c) c' \<Longrightarrow> dialled c'"
  by (auto simp: dialled_def conn_inv_def)

lemma dialled_step: "dialled c \<Longrightarrow> conn_step c c' \<Longrightarrow> dialled c' \<and> params c' = params c"
  using conn.kept [of "params c" "config c" c c'] dialled_inv [of c c'] by (auto simp: dialled_def conn_inv_def)

lemma pc_conn_simps [simp]:
  "i < length (pc_objs p) \<Longrightarrow> pc_conn (pc_set i c p) i = c"
  "j \<noteq> i \<Longrightarrow> pc_conn (pc_set i c p) j = pc_conn p j"
  "pc_conn (pc_input i q p) j = pc_conn p j" "length (pc_objs (pc_set i c p)) = length (pc_objs p)"
  "length (pc_objs (pc_input i q p)) = length (pc_objs p)"
  by (auto simp: pc_conn_def pc_set_def pc_input_def nth_list_update) (metis fst_conv list_update_beyond not_le nth_list_update)

lemma pc_set_fields [simp]:
  "pc_connectionMap (pc_set i c p) = pc_connectionMap p" "pc_tempConnectionMap (pc_set i c p) = pc_tempConnectionMap p"
  "localPortPool (pc_set i c p) = localPortPool p" "pc_config (pc_set i c p) = pc_config p"
  "pc_connectionMap (pc_input i q p) = pc_connectionMap p" "pc_tempConnectionMap (pc_input i q p) = pc_tempConnectionMap p"
  "localPortPool (pc_input i q p) = localPortPool p" "pc_isClosed (pc_set i c p) = pc_isClosed p"
  "pc_serviceMap (pc_set i c p) = pc_serviceMap p" "pc_services (pc_set i c p) = pc_services p"
  by (simp_all add: pc_set_def pc_input_def)

lemma conns_kept_set:
  assumes "\<forall>j < length (pc_objs p). dialled (pc_conn p j)" "i < length (pc_objs p)" "dialled c" "params c = params (pc_conn p i)"
    and "pc_objs p' = pc_objs (pc_set i c p)"
  shows "conns_kept p p'"
proof -
  have e: "pc_conn p' j = pc_conn (pc_set i c p) j" for j using assms(5) by (simp add: pc_conn_def)
  have "j < length (pc_objs p) \<Longrightarrow> params (pc_conn p' j) = params (pc_conn p j) \<and> dialled (pc_conn p' j)" for j
    using assms(1-4) unfolding e by (cases "j = i") auto
  then show ?thesis using assms(5) by (simp add: conns_kept_def)
qed

lemma conns_kept_same:
  assumes "pc_ok U p" "\<And>j. pc_conn p' j = pc_conn p j" "length (pc_objs p') = length (pc_objs p)"
  shows "conns_kept p p'"
  using assms by (auto simp: conns_kept_def pc_ok_def)

lemma conns_kept_trans: "conns_kept p p' \<Longrightarrow> conns_kept p' p'' \<Longrightarrow> conns_kept p p''"
  by (auto simp: conns_kept_def)

lemma pc_ok_set:
  assumes "pc_ok U p" "i < length (pc_objs p)" "dialled c" "params c = params (pc_conn p i)"
  shows "pc_ok U (pc_set i c p)"
  by (rule pc_ok_kept [OF assms(1) conns_kept_set]) (use assms in \<open>auto simp: pc_ok_def\<close>)

lemma pc_ok_dial:
  assumes "pc_ok U p" "dial_start isn rp now filter_ok serverPort cfg p = Return (r, p')"
  shows "pc_ok U p'"
proof -
  obtain x pool where al: "allocatePort now (localPortPool p) = (Inr x, pool)"
    using assms(2) by (auto simp: dial_start_def split: prod.splits sum.splits)
  define k where "k = dial_key x serverPort"
  define ps where "ps = \<lparr> key = k, isServer = False, remoteAddr = pc_serverAddr p, localAddr = pc_localAddr p,
      remotePort = serverPort, localPort = x \<rparr>"
  define c where "c = newConnection isn rp ps cfg"
  let ?n = "length (pc_objs p)"
  obtain ts where ts: "pc_tempConnectionMap p = Some ts"
    using assms(2) al by (auto simp: dial_start_def map_put_def Let_def split: option.splits)
  define p1 where "p1 = p\<lparr> localPortPool := pool, pc_objs := pc_objs p @ [(c, [])],
      pc_tempConnectionMap := Some (AList.update k ?n ts) \<rparr>"
  define c2 where "c2 = (startConnSignalTimer (initSendSyn c))\<lparr> nextSequenceNumber :=
      SeqIncrement (nextSequenceNumber (startConnSignalTimer (initSendSyn c))) \<rparr>"
  have p': "p' = p1 \<or> p' = pc_set ?n c2 p1"
    using assms(2) al ts
    by (auto simp: dial_start_def map_put_def Let_def p1_def c_def c2_def ps_def k_def split: if_splits)
  obtain H where h: "ring.accounted U (localPortPool p) H"
    "ports_of (lport p) (entries (pc_connectionMap p)) + ports_of (lport p) ts \<subseteq># H"
    using assms(1) ts by (auto simp: pc_ok_def)
  have ok: "entries_ok p (entries (pc_connectionMap p))" "entries_ok p ts" "\<forall>i < ?n. dialled (pc_conn p i)"
    using assms(1) ts by (auto simp: pc_ok_def)
  have dc: "dialled c" by (simp add: dialled_def c_def ps_def k_def new_connection_inv)
  have old: "i < ?n \<Longrightarrow> pc_conn p1 i = pc_conn p i" and new: "pc_conn p1 ?n = c" for i
    by (simp_all add: pc_conn_def p1_def nth_append)
  have len: "length (pc_objs p1) = Suc ?n" by (simp add: p1_def)
  have kept: "conns_kept p p1" using ok(3) old new dc len by (auto simp: conns_kept_def less_Suc_eq)
  have "ports_of (lport p1) (AList.update k ?n ts) \<subseteq># add_mset x (ports_of (lport p1) ts)"
    using ports_of_update [of "lport p1" k ?n ts] new by (simp add: lport_def c_def ps_def)
  then have "ports_of (lport p) (entries (pc_connectionMap p)) + ports_of (lport p1) (AList.update k ?n ts)
      \<subseteq># ports_of (lport p) (entries (pc_connectionMap p)) + add_mset x (ports_of (lport p) ts)"
    unfolding ports_of_kept [OF ok(2) kept] by (rule subset_mset.add_left_mono)
  also have "\<dots> \<subseteq># add_mset x H" using h(2) by simp
  finally have "ports_of (lport p1) (entries (pc_connectionMap p1)) + ports_of (lport p1) (AList.update k ?n ts) \<subseteq># add_mset x H"
    using ports_of_kept [OF ok(1) kept] by (simp add: p1_def)
  moreover have "entries_ok p1 (AList.update k ?n ts)"
    by (rule entries_ok_update [OF entries_ok_kept [OF ok(2) kept]]) (simp_all add: len new c_def ps_def)
  moreover have "ring.accounted U pool (add_mset x H)" by (rule ring.alloc_accounted [OF h(1) al])
  ultimately have p1: "pc_ok U p1"
    using entries_ok_kept [OF ok(1) kept] kept by (auto simp: pc_ok_def p1_def conns_kept_def)
  have "ctl (c\<lparr> nextSequenceNumber := y \<rparr>) = ctl c" for c y by (simp add: ctl_def)
  then have "ctl c2 = ctl c" by (simp add: c2_def ctl_simps)
  then have "dialled c2" "params c2 = params c" using dialled_ctl dc by (auto simp: ctl_def)
  then have "pc_ok U (pc_set ?n c2 p1)" using pc_ok_set [OF p1] len new by simp
  then show ?thesis using p' p1 by blast
qed

lemma ctl_dial_established: "ctl (dial_established q theirs c) = ctl c"
proof -
  have "ctl (c'\<lparr> initClientState := a, tcpOptions := b, lastAckNumber := x, initialPeerSeq := y, isOpenConnection := z \<rparr>) = ctl c'"
    "ctl (c'\<lparr> initClientState := a \<rparr>) = ctl c'" for c' a b x y z
    by (simp_all add: ctl_def)
  then show ?thesis by (simp add: dial_established_def Let_def ctl_simps)
qed

lemma pc_ok_dial_turn:
  assumes "pc_ok U p" "i < length (pc_objs p)" "map_get (pc_tempConnectionMap p) (key (params (pc_conn p i))) = Some i"
    and "dial_turn ev i p = Return (d, p')"
  shows "pc_ok U p'"
proof -
  define k where "k = key (params (pc_conn p i))"
  obtain H where h: "ring.accounted U (localPortPool p) H"
    "ports_of (lport p) (entries (pc_connectionMap p)) + ports_of (lport p) (entries (pc_tempConnectionMap p)) \<subseteq># H"
    using assms(1) by (auto simp: pc_ok_def)
  have ok: "entries_ok p (entries (pc_connectionMap p))" "entries_ok p (entries (pc_tempConnectionMap p))"
    and d: "dialled (pc_conn p i)" using assms(1,2) by (auto simp: pc_ok_def)
  show ?thesis
  proof (cases ev)
    case DialSignalFailed
    define c2 where "c2 = (case connSignalTimer ((pc_conn p i)\<lparr> isClosed := True \<rparr>) of
        Some t \<Rightarrow> (pc_conn p i)\<lparr> isClosed := True, connSignalTimer := None \<rparr> | None \<Rightarrow> (pc_conn p i)\<lparr> isClosed := True \<rparr>)"
    have "dialled c2" "params c2 = params (pc_conn p i)"
      using d by (auto simp: dialled_def c2_def conn_inv_def split: option.split)
    then have c: "pc_ok U (pc_set i c2 p)" using pc_ok_set assms(1,2) by blast
    have p': "p' = pc_set i c2 (p\<lparr> pc_tempConnectionMap := map_delete k (pc_tempConnectionMap p) \<rparr>)"
      using assms(4) DialSignalFailed by (simp add: dial_turn_def c2_def k_def pc_set_def Let_def)
    show ?thesis
      by (rule pc_ok_kept [OF c conns_kept_same [OF c], of _ k]) (simp_all add: p' pc_conn_def pc_set_def)
  next
    case (DialPacket q)
    show ?thesis
    proof (cases "Flags q = SYNFlag OR ACKFlag")
      case False
      then show ?thesis using assms(1,4) DialPacket by (simp add: dial_turn_def)
    next
      case True
      obtain c1 theirs where c1: "stopConnSignalTimer (pc_conn p i) = Return c1" "TcpOptions q = Some theirs"
        using assms(4) DialPacket True by (auto simp: dial_turn_def Let_def go_simps split: option.splits)
      obtain ms where ms: "pc_connectionMap p = Some ms"
        using assms(4) DialPacket True c1 by (cases "pc_connectionMap p") (auto simp: dial_turn_def map_put_def Let_def)
      define c5 where "c5 = dial_established q theirs c1"
      have p': "p' = pc_set i c5 (p\<lparr> pc_tempConnectionMap := map_delete k (pc_tempConnectionMap p),
          pc_connectionMap := Some (AList.update k i ms) \<rparr>)"
        using assms(4) DialPacket True c1 ms by (simp add: dial_turn_def map_put_def k_def c5_def Let_def)
      have "ctl c5 = ctl (pc_conn p i)"
        using ctl_stop_timer [OF c1(1)] by (simp add: c5_def ctl_dial_established)
      then have c5: "dialled c5" "params c5 = params (pc_conn p i)" using dialled_ctl [OF _ d] by (auto simp: ctl_def)
      have kept: "conns_kept p p'"
        by (rule conns_kept_set [OF _ assms(2) c5]) (use assms(1) in \<open>simp_all add: pc_ok_def p' pc_set_def\<close>)
      have okp: "entries_ok p (AList.update k i ms)" "entries_ok p (AList.delete k (entries (pc_tempConnectionMap p)))"
        using entries_ok_update entries_ok_delete ok ms assms(2) by (auto simp: k_def)
      let ?t = "entries (pc_tempConnectionMap p)"
      have "map_of ?t k = Some i" using assms(3) by (simp add: entries_get k_def)
      then have "add_mset (lport p i) (ports_of (lport p) (AList.delete k ?t)) \<subseteq># ports_of (lport p) ?t" by (rule ports_of_take)
      then have "ports_of (lport p) ms + add_mset (lport p i) (ports_of (lport p) (AList.delete k ?t)) \<subseteq># H"
        using h(2) ms by (metis entries_simps(2) subset_mset.add_left_mono subset_mset.order_trans)
      then have to_H: "add_mset (lport p i) (ports_of (lport p) ms) + ports_of (lport p) (AList.delete k ?t) \<subseteq># H" by simp
      have "ports_of (lport p) (AList.update k i ms) + ports_of (lport p) (AList.delete k ?t)
          \<subseteq># add_mset (lport p i) (ports_of (lport p) ms) + ports_of (lport p) (AList.delete k ?t)"
        by (rule subset_mset.add_right_mono [OF ports_of_update])
      then have "ports_of (lport p) (AList.update k i ms) + ports_of (lport p) (AList.delete k ?t) \<subseteq># H"
        using to_H by (rule subset_mset.order_trans)
      then have "ports_of (lport p') (entries (pc_connectionMap p')) + ports_of (lport p') (entries (pc_tempConnectionMap p')) \<subseteq># H"
        using ports_of_kept [OF okp(1) kept] ports_of_kept [OF okp(2) kept] by (simp add: p')
      then show ?thesis
        using h(1) kept entries_ok_kept [OF okp(1) kept] entries_ok_kept [OF okp(2) kept]
        unfolding pc_ok_def by (auto simp: p' conns_kept_def)
    qed
  qed
qed

text \<open>
  The end of a connection: its port is held, so it goes back to the pool, and \<open>log.Fatalf\<close>, which
  the code calls when the pool refuses it, is never reached.
\<close>

lemma pc_ok_conn_end:
  assumes "pc_ok U p" "i < length (pc_objs p)"
  shows "\<exists>stop p'. pc_handleCloseConnection (PcConnClosed i) p = Return (stop, p') \<and> pc_ok U p'
    \<and> (map_get (pc_connectionMap p) (key (params (pc_conn p i))) \<noteq> None \<longrightarrow> lport p i \<in> set (available (localPortPool p')))"
proof -
  define k where "k = key (params (pc_conn p i))"
  let ?m = "entries (pc_connectionMap p)" and ?t = "entries (pc_tempConnectionMap p)"
  obtain H where h: "ring.accounted U (localPortPool p) H" "ports_of (lport p) ?m + ports_of (lport p) ?t \<subseteq># H"
    using assms(1) by (auto simp: pc_ok_def)
  have ok: "entries_ok p ?m" "entries_ok p ?t" and d: "dialled (pc_conn p i)" using assms by (auto simp: pc_ok_def)
  show ?thesis
  proof (cases "map_of ?m k")
    case None
    then show ?thesis using assms(1)
      by (intro exI [of _ False] exI [of _ p]) (simp add: pc_handleCloseConnection_def entries_get k_def Let_def)
  next
    case (Some j)
    then have "(k, j) \<in> set ?m" by (rule map_of_SomeD)
    then have j: "j < length (pc_objs p)" "key (params (pc_conn p j)) = k" using ok(1) by (auto simp: entries_ok_def)
    then have "dialled (pc_conn p j)" using assms(1) by (simp add: pc_ok_def)
    then have same: "lport p j = lport p i" using d j(2) dial_key_port by (auto simp: dialled_def k_def lport_def)
    have take: "add_mset (lport p i) (ports_of (lport p) (AList.delete k ?m)) \<subseteq># ports_of (lport p) ?m"
      using ports_of_take [OF Some, of "lport p"] same by simp
    then have "add_mset (lport p i) (ports_of (lport p) (AList.delete k ?m)) + ports_of (lport p) ?t \<subseteq># H"
      using h(2) by (meson subset_mset.add_right_mono subset_mset.order_trans)
    then have rest: "lport p i \<in># H" "ports_of (lport p) (AList.delete k ?m) + ports_of (lport p) ?t \<subseteq># H - {#lport p i#}"
      by (auto simp: insert_subset_eq_iff)
    obtain pool where pool: "returnPort (lport p i) (localPortPool p) = (None, pool)" "ring.accounted U pool (H - {#lport p i#})"
      using ring.give_accounted [OF h(1) rest(1)] by blast
    define p1 where "p1 = p\<lparr> pc_connectionMap := map_delete k (pc_connectionMap p), localPortPool := pool \<rparr>"
    have kept: "conns_kept p p1" by (rule conns_kept_same [OF assms(1)]) (simp_all add: p1_def pc_conn_def)
    have "ports_of (lport p1) (entries (pc_connectionMap p1)) + ports_of (lport p1) (entries (pc_tempConnectionMap p1)) \<subseteq># H - {#lport p i#}"
      using rest(2) ports_of_kept [OF entries_ok_delete [OF ok(1)] kept] ports_of_kept [OF ok(2) kept] by (simp add: p1_def)
    then have p1: "pc_ok U p1"
      using pool(2) kept entries_ok_kept [OF entries_ok_delete [OF ok(1)] kept] entries_ok_kept [OF ok(2) kept]
      by (auto simp: pc_ok_def p1_def conns_kept_def)
    have timer: "pc_ok U (p1\<lparr> emptyMapTimer := x \<rparr>)" for x
      by (rule pc_ok_kept [OF p1 conns_kept_same [OF p1]]) (simp_all add: pc_conn_def)
    have "\<not> isServer (params (pc_conn p i))" using d by (simp add: dialled_def)
    then have r: "pc_handleCloseConnection (PcConnClosed i) p = Return (False, if map_size (pc_connectionMap p1) = 0
        then p1\<lparr> emptyMapTimer := Some (AfterFunc (time_Second * PConnTimeout (pc_config p1))) \<rparr> else p1)"
      using Some pool(1)
      by (simp add: pc_handleCloseConnection_def entries_get k_def [symmetric] Let_def lport_def [symmetric] p1_def)
    obtain H' where "H = add_mset (lport p i) H'" using rest(1) by (auto dest: multi_member_split)
    moreover have "mset (available pool) + (H - {#lport p i#}) = U" "mset (available (localPortPool p)) + H = U"
      using h(1) pool(2) by (simp_all add: ring.accounted_def)
    ultimately have "mset (available pool) = add_mset (lport p i) (mset (available (localPortPool p)))"
      by (simp flip: \<open>mset (available pool) + (H - {#lport p i#}) = U\<close>)
    then have "lport p i \<in># mset (available pool)" by simp
    then have "lport p i \<in> set (available pool)" by simp
    then show ?thesis using r p1 timer by (auto simp: p1_def)
  qed
qed

lemma pc_ok_same_maps:
  assumes "pc_ok U p" "pc_objs p' = pc_objs p" "localPortPool p' = localPortPool p"
    and "pc_connectionMap p' = pc_connectionMap p" "pc_tempConnectionMap p' = pc_tempConnectionMap p"
  shows "pc_ok U p'"
  by (rule pc_ok_kept [OF assms(1) conns_kept_same [OF assms(1)]]) (use assms in \<open>simp_all add: pc_conn_def\<close>)

lemma pc_ok_frame:
  assumes "pc_ok U p" "pc_handleIncomingPackets fuel buffer rd p = Some (Return (r, p'))"
  shows "pc_ok U p'"
proof -
  have input: "pc_ok U (pc_input i q (p\<lparr> pc_rpool := x \<rparr>))" for i q x
    by (rule pc_ok_kept [OF assms(1) conns_kept_same [OF assms(1)]])
      (cases "i < length (pc_objs p)"; auto simp: pc_conn_def pc_input_def nth_list_update list_update_beyond)+
  have other: "pc_ok U (svc_input j q (p\<lparr> pc_rpool := x \<rparr>))" "pc_ok U (p\<lparr> pc_rpool := x \<rparr>)"
    "pc_ok U (p\<lparr> pc_rpool := x, connMutexHeld := is \<rparr>)" for j q x "is"
    by (rule pc_ok_same_maps [OF assms(1)]; simp add: svc_input_def)+
  have temp: "client_temp fuel k frame n p = Some (Return (r, p')) \<Longrightarrow> pc_ok U p'" for k frame n
    using assms(1) input other
    by (auto simp: client_temp_def split: option.splits if_splits go.splits prod.splits)
  have disp: "client_dispatch fuel frame n p = Some (Return (r, p')) \<Longrightarrow> pc_ok U p'" for frame n
    using assms(1) input other temp
    by (auto simp: client_dispatch_def Let_def split: option.splits if_splits go.splits prod.splits)
  have srv: "server_dispatch q (p\<lparr> pc_rpool := x \<rparr>) = Return (r, p') \<Longrightarrow> pc_ok U p'" for q x
    using other by (auto simp: server_dispatch_def Let_def split: option.splits if_splits)
  show ?thesis
    using assms disp srv other
    by (auto simp: pc_handleIncomingPackets_def clientProcessingIncomingPacket_def serverProcessingIncomingPacket_def
        split: option.splits if_splits go.splits prod.splits sum.splits bool.splits)
qed

lemma ctl_dispose: "dispose_packet now q c = Return c' \<Longrightarrow> ctl c' = ctl c"
proof -
  assume a: "dispose_packet now q c = Return c'"
  have "ctl (c\<lparr> resendPackets := m \<rparr>) = ctl c" for m by (simp add: ctl_def)
  then show ?thesis using a
    by (auto simp: dispose_packet_def go_simps ctl_return_chunk split: if_splits option.splits)
qed

lemma outgoing_disposes:
  "handleOutgoingPackets cfg proto micros now rnd answer q c s = Return (OutContinues c' s') \<Longrightarrow>
     dispose_packet now (q\<lparr> TcpOptions := Some (tcpOptions c) \<rparr>) c = Return c'"
  by (auto simp: handleOutgoingPackets_def Let_def go_simps split: option.splits)

lemma pc_ok_begin_closes:
  assumes "pc_ok U p" "\<forall>i \<in> set is. i < length (pc_objs p)"
  shows "pc_ok U (begin_closes is p)"
  using assms
proof (induction "is" arbitrary: p)
  case (Cons i "is")
  have "dialled (pc_conn p i)" using Cons.prems by (simp add: pc_ok_def)
  then have "dialled (Close (pc_conn p i))" "params (Close (pc_conn p i)) = params (pc_conn p i)"
    using dialled_step conn_step.user_close by blast+
  then have "pc_ok U (pc_set i (Close (pc_conn p i)) p)" using pc_ok_set Cons.prems by simp
  then show ?case using Cons.IH [of "pc_set i (Close (pc_conn p i)) p"] Cons.prems(2) by (simp add: begin_closes_def)
qed (simp add: begin_closes_def)

lemma pc_ok_await_closes:
  assumes "pc_ok U p" "\<forall>i \<in> set is. i < length (pc_objs p)" "await_closes is p = Return p'"
  shows "pc_ok U p'"
  using assms
proof (induction "is" arbitrary: p)
  case (Cons i "is")
  obtain c where c: "Close_timed_out (pc_conn p i) = Return c" "await_closes is (pc_set i c p) = Return p'"
    using Cons.prems(3) by (auto simp: go_simps)
  have "dialled (pc_conn p i)" using Cons.prems by (simp add: pc_ok_def)
  then have "pc_ok U (pc_set i c p)"
    using dialled_step [OF _ conn_step.close_timeout [OF c(1)]] pc_ok_set Cons.prems(1,2) by simp
  then show ?case using Cons.IH c(2) Cons.prems(2) by simp
qed simp

lemma close_services_same:
  "close_services js p = Return p' \<Longrightarrow> pc_objs p' = pc_objs p \<and> localPortPool p' = localPortPool p
     \<and> pc_connectionMap p' = pc_connectionMap p \<and> pc_tempConnectionMap p' = pc_tempConnectionMap p"
  by (induction js arbitrary: p) (auto simp: go_simps)

lemma length_begin_closes [simp]: "length (pc_objs (begin_closes is p)) = length (pc_objs p)"
  by (induction "is" arbitrary: p) (simp_all add: begin_closes_def)

lemma pc_ok_close:
  assumes "pc_ok U p" "pc_Close p = Return p'"
  shows "pc_ok U p'"
proof (cases "pc_isClosed p")
  case False
  let ?is = "map_values (pc_connectionMap p)"
  have v: "\<forall>i \<in> set ?is. i < length (pc_objs p)"
    using assms(1) by (auto simp: pc_ok_def entries_ok_def map_values_def entries_def split: option.splits)
  have p1: "pc_ok U (p\<lparr> pc_isClosed := True \<rparr>)" by (rule pc_ok_same_maps [OF assms(1)]) simp_all
  define q where "q = begin_closes ?is (p\<lparr> pc_isClosed := True \<rparr>)"
  have q: "pc_ok U q" unfolding q_def by (rule pc_ok_begin_closes [OF p1]) (use v in simp)
  have "pc_ok U (q\<lparr> pc_connectionMap := None \<rparr>)"
    by (rule pc_ok_kept [OF q conns_kept_same [OF q]]) (simp_all add: pc_conn_def)
  then have b: "pc_ok U (pc_Close_begin p)"
    using False by (simp add: pc_Close_begin_def Let_def q_def)
  obtain p2 p3 where p2: "await_closes ?is (pc_Close_begin p) = Return p2"
    "close_services (map_values (pc_serviceMap p2)) p2 = Return p3"
    and p': "p' = p3\<lparr> pc_serviceMap := None, pc_closeSignalClosed := True, emptyMapTimer := None,
       pConnCloseSignals := pConnCloseSignals p3 + 1 \<rparr>"
    using assms(2) False by (auto simp: pc_Close_def Let_def go_simps split: if_splits)
  have "pc_ok U p2" by (rule pc_ok_await_closes [OF b _ p2(1)]) (use v False in \<open>simp add: pc_Close_begin_def Let_def\<close>)
  then show ?thesis by (rule pc_ok_same_maps) (use close_services_same [OF p2(2)] in \<open>simp_all add: p'\<close>)
qed (use assms in \<open>simp add: pc_Close_def\<close>)

lemma pc_ok_step:
  assumes "pc_ok U p" "pc_step p p'"
  shows "pc_ok U p'"
  using assms(2)
proof cases
  case (conn_turn i c')
  then show ?thesis using pc_ok_set [OF assms(1)] dialled_step assms(1) by (auto simp: pc_ok_def)
next
  case (packet_out i micros now rnd answer q s c' s')
  have d: "dialled (pc_conn p i)" using assms(1) packet_out(1) by (simp add: pc_ok_def)
  have "ctl c' = ctl (pc_conn p i)" using ctl_dispose outgoing_disposes packet_out(2) by blast
  then have "dialled c'" "params c' = params (pc_conn p i)" using dialled_ctl d by (auto simp: ctl_def)
  then show ?thesis using pc_ok_set [OF assms(1) packet_out(1)] packet_out(3) by blast
next
  case (conn_end i stop)
  then show ?thesis using pc_ok_conn_end [OF assms(1) conn_end(1)] by auto
next
  case (service_end j stop)
  then have "p' = p \<or> p' = p\<lparr> pc_serviceMap := map_delete (port (fst (pc_services p ! j))) (pc_serviceMap p) \<rparr>"
    by (auto simp: pc_handleCloseConnection_def Let_def split: option.splits)
  then show ?thesis using assms(1) pc_ok_same_maps by fastforce
next
  case timer
  have t: "pc_ok U (p\<lparr> emptyMapTimer := x \<rparr>)" for x by (rule pc_ok_same_maps [OF assms(1)]) simp_all
  then show ?thesis using timer assms(1) pc_ok_close [OF t]
    by (auto simp: emptyMapTimer_fired_def Let_def split: option.splits if_splits)
qed (use assms(1) in \<open>auto intro: pc_ok_dial pc_ok_dial_turn pc_ok_frame pc_ok_close\<close>)

interpretation pcrun: machine pc_step "pc_ok U" for U
  by unfold_locales (rule pc_ok_step)

section \<open>Properties\<close>

lemma fresh_pc_ok:
  assumes "newPcpProtocolConnection True perm rp ky False proto sa la cfg = Some p" "is_perm pool_minPort pool_maxPort perm"
  shows "pc_ok (mset_set {pool_minPort..pool_maxPort}) p"
proof -
  have "ring.accounted (mset_set {pool_minPort..pool_maxPort}) (newPortPool pool_minPort pool_maxPort perm) {#}"
    by (rule fresh_accounted [OF assms(2)])
  then show ?thesis using assms(1) by (auto simp: pc_ok_def newPcpProtocolConnection_def)
qed

lemma distinct_ports:
  assumes "pc_ok U p" "\<forall>y. count U y \<le> 1"
  shows "distinct (map (\<lambda>(k, i). lport p i) (entries (pc_connectionMap p) @ entries (pc_tempConnectionMap p))
    @ available (localPortPool p))"
proof -
  let ?M = "map (\<lambda>(k, i). lport p i) (entries (pc_connectionMap p) @ entries (pc_tempConnectionMap p))"
  obtain H where h: "ring.accounted U (localPortPool p) H"
    "ports_of (lport p) (entries (pc_connectionMap p)) + ports_of (lport p) (entries (pc_tempConnectionMap p)) \<subseteq># H"
    using assms(1) by (auto simp: pc_ok_def)
  have "mset ?M \<subseteq># H" using h(2) by (simp add: ports_of_def mset_map)
  then have "mset (?M @ available (localPortPool p)) \<subseteq># U"
    using h(1) by (metis add.commute mset_append ring.accounted_def subset_mset.add_left_mono)
  then have "count (mset (?M @ available (localPortPool p))) y \<le> 1" for y
    using assms(2) by (meson mset_subset_eq_count order_trans)
  then show ?thesis by (simp only: distinct_count_atmost_1) (metis One_nat_def count_mset le_SucE le_zero_eq count_mset_0_iff)
qed

lemma mapped_port_taken:
  assumes "pc_ok U p" "\<forall>y. count U y \<le> 1" "i < length (pc_objs p)"
    and "map_get (pc_connectionMap p) (key (params (pc_conn p i))) = Some j"
  shows "lport p i \<notin> set (available (localPortPool p))"
proof -
  have m: "(key (params (pc_conn p i)), j) \<in> set (entries (pc_connectionMap p))"
    using assms(4) by (auto simp: entries_get dest: map_of_SomeD)
  then have "j < length (pc_objs p)" "key (params (pc_conn p j)) = key (params (pc_conn p i))"
    using assms(1) by (auto simp: pc_ok_def entries_ok_def)
  then have "lport p j = lport p i"
    using assms(1,3) dial_key_port by (auto simp: pc_ok_def dialled_def lport_def)
  moreover have "lport p j \<in> (\<lambda>(k, i). lport p i) ` set (entries (pc_connectionMap p))" using m by force
  ultimately show ?thesis using distinct_ports [OF assms(1,2)] by auto
qed

lemma failed_dial_unaccounted:
  assumes "pc_ok U p" "map_get (pc_tempConnectionMap p) (key (params (pc_conn p i))) = Some i" "i < length (pc_objs p)"
    and "dial_turn DialSignalFailed i p = Return (r, p')"
  shows "pc_ok (U - {#lport p i#}) p' \<and> lport p i \<in># U"
proof -
  define k where "k = key (params (pc_conn p i))"
  let ?m = "entries (pc_connectionMap p)" and ?t = "entries (pc_tempConnectionMap p)" and ?x = "lport p i"
  obtain H where h: "ring.accounted U (localPortPool p) H" "ports_of (lport p) ?m + ports_of (lport p) ?t \<subseteq># H"
    and ok: "\<forall>j < length (pc_objs p). dialled (pc_conn p j)" "entries_ok p ?m" "entries_ok p ?t"
    using assms(1) by (auto simp: pc_ok_def)
  have take: "add_mset ?x (ports_of (lport p) (AList.delete k ?t)) \<subseteq># ports_of (lport p) ?t"
    using ports_of_take [of ?t k i "lport p"] assms(2) by (simp add: entries_get k_def)
  then have "add_mset ?x (ports_of (lport p) ?m + ports_of (lport p) (AList.delete k ?t)) \<subseteq># H"
    using subset_mset.order_trans [OF subset_mset.add_left_mono [OF take, of "ports_of (lport p) ?m"] h(2)] by simp
  then have x: "?x \<in># H" "ports_of (lport p) ?m + ports_of (lport p) (AList.delete k ?t) \<subseteq># H - {#?x#}"
    by (auto simp: insert_subset_eq_iff)
  have acc: "ring.accounted (U - {#?x#}) (localPortPool p) (H - {#?x#})" "?x \<in># U"
    using h(1) x(1) size_Diff1_le [of U ?x] by (auto simp: ring.accounted_def dest: in_diffD)
  define p1 where "p1 = p\<lparr> pc_tempConnectionMap := map_delete k (pc_tempConnectionMap p) \<rparr>"
  have kept: "conns_kept p p1" by (rule conns_kept_same [OF assms(1)]) (simp_all add: p1_def pc_conn_def)
  have p1: "pc_ok (U - {#?x#}) p1"
    using acc x(2) kept entries_ok_kept [OF ok(2) kept] entries_ok_kept [OF entries_ok_delete [OF ok(3)] kept]
      ports_of_kept [OF ok(2) kept] ports_of_kept [OF entries_ok_delete [OF ok(3)] kept]
    by (auto simp: pc_ok_def p1_def conns_kept_def)
  obtain c where c: "p' = pc_set i c p1" "ctl (c\<lparr> isClosed := False, connSignalTimer := None \<rparr>) = ctl ((pc_conn p i)\<lparr> isClosed := False, connSignalTimer := None \<rparr>)"
    "isClosed c"
    using assms(4) by (auto simp: dial_turn_def Let_def p1_def k_def ctl_def split: option.splits)
  have "dialled c" "params c = params (pc_conn p i)"
    using ok(1) assms(3) c(2,3) by (auto simp: dialled_def ctl_def conn_inv_def)
  then show ?thesis
    using pc_ok_set [OF p1, of i c] assms(3) acc(2) c(1) by (simp add: p1_def pc_conn_def)
qed

definition fresh_client :: pconn where
  "fresh_client = the (newPcpProtocolConnection True [0..<28232] sample_rp ''k'' False 6 (IPAddr [10, 0, 0, 2])
     (IPAddr [10, 0, 0, 1]) DefaultPcpProtocolConnConfig)"

definition dialling_client :: pconn where
  "dialling_client = (case dial_start 7 sample_rp 0 True 8901 DefaultConnectionConfig fresh_client of
     Return (r, p) \<Rightarrow> p | _ \<Rightarrow> fresh_client)"

definition open_client :: pconn where
  "open_client = (case dial_turn (DialPacket (zero_packet\<lparr> Flags := SYNFlag OR ACKFlag, TcpOptions := Some zero_options \<rparr>)) 0
     dialling_client of Return (r, p) \<Rightarrow> p | _ \<Rightarrow> fresh_client)"

lemma fresh_client: "newPcpProtocolConnection True [0..<28232] sample_rp ''k'' False 6 (IPAddr [10, 0, 0, 2])
    (IPAddr [10, 0, 0, 1]) DefaultPcpProtocolConnConfig = Some fresh_client" "is_perm pool_minPort pool_maxPort [0..<28232]"
  by (simp_all add: fresh_client_def newPcpProtocolConnection_def is_perm_def)

lemma dialling_client:
  "dial_start 7 sample_rp 0 True 8901 DefaultConnectionConfig fresh_client = Return (Some 0, dialling_client)"
  "pc_tempConnectionMap dialling_client = Some [(dial_key 32768 8901, 0)]" "length (pc_objs dialling_client) = 1"
  "key (params (pc_conn dialling_client 0)) = dial_key 32768 8901" "lport dialling_client 0 = 32768"
  "pc_connectionMap dialling_client = Some []" "connSignalTimer (pc_conn dialling_client 0) \<noteq> None"
proof -
  obtain pool where al: "allocatePort 0 (localPortPool fresh_client) = (Inr 32768, pool)"
    by (simp add: fresh_client_def newPcpProtocolConnection_def newPortPool_def allocatePort_def Let_def)
  define k where "k = dial_key 32768 8901"
  define c where "c = newConnection 7 sample_rp \<lparr> key = k, isServer = False, remoteAddr = IPAddr [10, 0, 0, 2],
      localAddr = IPAddr [10, 0, 0, 1], remotePort = 8901, localPort = 32768 \<rparr> DefaultConnectionConfig"
  define c2 where "c2 = (startConnSignalTimer (initSendSyn c))\<lparr> nextSequenceNumber :=
      SeqIncrement (nextSequenceNumber (startConnSignalTimer (initSendSyn c))) \<rparr>"
  define p1 where "p1 = fresh_client\<lparr> localPortPool := pool, pc_objs := [(c, [])], pc_tempConnectionMap := Some [(k, 0)] \<rparr>"
  have f: "pc_objs fresh_client = []" "pc_tempConnectionMap fresh_client = Some []" "pc_connectionMap fresh_client = Some []"
    "pc_serverAddr fresh_client = IPAddr [10, 0, 0, 2]" "pc_localAddr fresh_client = IPAddr [10, 0, 0, 1]"
    by (simp_all add: fresh_client_def newPcpProtocolConnection_def)
  have d: "dial_start 7 sample_rp 0 True 8901 DefaultConnectionConfig fresh_client = Return (Some 0, pc_set 0 c2 p1)"
    by (simp add: dial_start_def al Let_def f map_put_def p1_def c2_def c_def k_def)
  then show "dial_start 7 sample_rp 0 True 8901 DefaultConnectionConfig fresh_client = Return (Some 0, dialling_client)"
    by (simp add: dialling_client_def)
  have dc: "dialling_client = pc_set 0 c2 p1" using d by (simp add: dialling_client_def)
  have "ctl (c\<lparr> nextSequenceNumber := y \<rparr>) = ctl c" for c y by (simp add: ctl_def)
  then have "ctl c2 = ctl c" by (simp add: c2_def ctl_simps)
  then have "params c2 = params c" by (simp add: ctl_def)
  moreover have "connSignalTimer c2 \<noteq> None" by (simp add: c2_def startConnSignalTimer_def)
  ultimately show "pc_tempConnectionMap dialling_client = Some [(dial_key 32768 8901, 0)]" "length (pc_objs dialling_client) = 1"
    "key (params (pc_conn dialling_client 0)) = dial_key 32768 8901" "lport dialling_client 0 = 32768"
    "pc_connectionMap dialling_client = Some []" "connSignalTimer (pc_conn dialling_client 0) \<noteq> None"
    by (simp_all add: dc p1_def lport_def c_def k_def f)
qed

lemma dialling_steps: "pc_step\<^sup>*\<^sup>* fresh_client dialling_client"
  using pc_step.dial [OF dialling_client(1)] by blast

lemma open_client:
  "pc_step\<^sup>*\<^sup>* fresh_client open_client" "map_get (pc_connectionMap open_client) (dial_key 32768 8901) = Some 0"
  "key (params (pc_conn open_client 0)) = dial_key 32768 8901" "length (pc_objs open_client) = 1"
  "pc_tempConnectionMap open_client = Some []" "lport open_client 0 = 32768"
proof -
  let ?q = "zero_packet\<lparr> Flags := SYNFlag OR ACKFlag, TcpOptions := Some zero_options \<rparr>"
  obtain t where t: "connSignalTimer (pc_conn dialling_client 0) = Some t" using dialling_client(7) by blast
  define c1 where "c1 = (pc_conn dialling_client 0)\<lparr> connSignalTimer := Some (timer_Stop t) \<rparr>"
  define p1 where "p1 = dialling_client\<lparr> pc_tempConnectionMap := Some [], pc_connectionMap := Some [(dial_key 32768 8901, 0)] \<rparr>"
  have d: "dial_turn (DialPacket ?q) 0 dialling_client = Return (Dialed, pc_set 0 (dial_established ?q zero_options c1) p1)"
    using dialling_client t
    by (simp add: dial_turn_def Let_def stopConnSignalTimer_def map_put_def map_delete_def p1_def c1_def)
  then have oc: "open_client = pc_set 0 (dial_established ?q zero_options c1) p1" by (simp add: open_client_def)
  have s: "pc_step dialling_client open_client"
    by (rule pc_step.dial_wait [of 0]) (use dialling_client d oc in \<open>simp_all add: map_get_def\<close>)
  show "pc_step\<^sup>*\<^sup>* fresh_client open_client" using dialling_steps s by (rule rtranclp.rtrancl_into_rtrancl)
  have "params (dial_established ?q zero_options c1) = params (pc_conn dialling_client 0)"
    using ctl_dial_established [of ?q zero_options c1] by (simp add: ctl_def c1_def)
  then show "map_get (pc_connectionMap open_client) (dial_key 32768 8901) = Some 0"
    "key (params (pc_conn open_client 0)) = dial_key 32768 8901" "length (pc_objs open_client) = 1"
    "pc_tempConnectionMap open_client = Some []" "lport open_client 0 = 32768"
    using dialling_client by (simp_all add: oc p1_def map_get_def lport_def)
qed

text \<open>
  C9. In every run of a client's protocol connection, whatever is dialled, received, sent and closed
  in whatever order, the connections in its two maps have different local ports, and none of
  these ports is one the pool would hand out.
\<close>

theorem ports_in_use_distinct:
  assumes "newPcpProtocolConnection True perm rp ky False proto sa la cfg = Some p0" "is_perm pool_minPort pool_maxPort perm"
    and "pc_step\<^sup>*\<^sup>* p0 p"
  shows "distinct (map (\<lambda>(k, i). lport p i) (entries (pc_connectionMap p) @ entries (pc_tempConnectionMap p))
    @ available (localPortPool p))"
  by (rule distinct_ports [OF pcrun.run_kept [OF assms(3) fresh_pc_ok [OF assms(1,2)]]]) (simp add: count_mset_set')

theorem ports_in_use_distinct_witness:
  "32768 \<notin> set (available (localPortPool open_client))"
  using ports_in_use_distinct [OF fresh_client open_client(1)] open_client(2,6)
  by (auto simp: entries_get dest!: map_of_SomeD)


text \<open>
  C26. The end of a connection never brings the program down: in every run, the close handler finds
  the connection's port held, returns it without the error that would be fatal, and the port can
  be allocated again.
\<close>

theorem close_returns_port:
  assumes "newPcpProtocolConnection True perm rp ky False proto sa la cfg = Some p0" "is_perm pool_minPort pool_maxPort perm"
    and "pc_step\<^sup>*\<^sup>* p0 p" "i < length (pc_objs p)"
  shows "\<exists>p'. pc_handleCloseConnection (PcConnClosed i) p = Return (False, p')
    \<and> (map_get (pc_connectionMap p) (key (params (pc_conn p i))) \<noteq> None
        \<longrightarrow> lport p i \<notin> set (available (localPortPool p)) \<and> lport p i \<in> set (available (localPortPool p')))"
proof -
  let ?U = "mset_set {pool_minPort..pool_maxPort}"
  have ok: "pc_ok ?U p" by (rule pcrun.run_kept [OF assms(3) fresh_pc_ok [OF assms(1,2)]])
  obtain stop p' where e: "pc_handleCloseConnection (PcConnClosed i) p = Return (stop, p')"
    "map_get (pc_connectionMap p) (key (params (pc_conn p i))) \<noteq> None \<longrightarrow> lport p i \<in> set (available (localPortPool p'))"
    using pc_ok_conn_end [OF ok assms(4)] by blast
  moreover have "\<not> stop" using e(1) by (auto simp: pc_handleCloseConnection_def Let_def go_simps split: option.splits)
  moreover have "lport p i \<notin> set (available (localPortPool p))" if "map_get (pc_connectionMap p) (key (params (pc_conn p i))) = Some j" for j
    using mapped_port_taken [OF ok _ assms(4) that] by (simp add: count_mset_set')
  ultimately show ?thesis by auto
qed

theorem close_returns_port_witness:
  "\<exists>p'. pc_handleCloseConnection (PcConnClosed 0) open_client = Return (False, p')
    \<and> 32768 \<in> set (available (localPortPool p'))"
  using close_returns_port [OF fresh_client open_client(1), of 0] open_client(2,3,4,6) by fastforce


text \<open>
  C38. A failed dial loses its local port: when the handshake times out, the connection leaves the map
  of those being dialled, but nothing that happens afterwards makes its port available again. A
  client that keeps dialling an unreachable server runs out of ports, which is fatal.
\<close>

theorem failed_dial_loses_port:
  assumes "newPcpProtocolConnection True perm rp ky False proto sa la cfg = Some p0" "is_perm pool_minPort pool_maxPort perm"
    and "pc_step\<^sup>*\<^sup>* p0 p" "i < length (pc_objs p)"
    and "map_get (pc_tempConnectionMap p) (key (params (pc_conn p i))) = Some i"
    and "dial_turn DialSignalFailed i p = Return (r, p')" "pc_step\<^sup>*\<^sup>* p' p''"
  shows "lport p i \<notin> set (available (localPortPool p''))"
proof -
  let ?U = "mset_set {pool_minPort..pool_maxPort}"
  have "pc_ok ?U p" by (rule pcrun.run_kept [OF assms(3) fresh_pc_ok [OF assms(1,2)]])
  then have f: "pc_ok (?U - {#lport p i#}) p'" by (rule conjunct1 [OF failed_dial_unaccounted [OF _ assms(5,4,6)]])
  have "pc_ok (?U - {#lport p i#}) p''" by (rule pcrun.run_kept [OF assms(7) f])
  then obtain H where "mset (available (localPortPool p'')) + H = ?U - {#lport p i#}"
    by (auto simp: pc_ok_def ring.accounted_def)
  then have "count (mset (available (localPortPool p''))) (lport p i) \<le> count ?U (lport p i) - 1"
    by (metis count_diff count_single le_add1 count_union)
  then have "count (mset (available (localPortPool p''))) (lport p i) = 0" by (simp add: count_mset_set' split: if_splits)
  then show ?thesis by (metis count_mset_0_iff)
qed

theorem failed_dial_loses_port_witness:
  "\<exists>p. dial_turn DialSignalFailed 0 dialling_client = Return (DialFailed, p)
    \<and> 32768 \<notin> set (available (localPortPool p))"
proof -
  obtain p where d: "dial_turn DialSignalFailed 0 dialling_client = Return (DialFailed, p)"
    by (simp add: dial_turn_def Let_def)
  show ?thesis
    using failed_dial_loses_port [OF fresh_client dialling_steps _ _ d rtranclp.rtrancl_refl] d dialling_client(2-5)
    by (auto simp: map_get_def)
qed


end
