(* ===== verification/Pconn_Frames.thy ===== *)
theory Pconn_Frames
  imports Pconn_Ports
begin

text \<open>
  The frames of a protocol connection: what \<open>handleOutgoingPackets\<close> writes, the reading loop of
  the other end delivers, with the checksum checked or not; a chunk leaves the output exactly
  once; the retries are bounded. The last section shows how a short segment takes a connection's
  mutex for good and how a close drops the replies it waits for.
\<close>

section \<open>What is written\<close>

lemma write_tries_bound:
  "write_tries left answer i = (w, k) \<Longrightarrow> k \<le> i + left \<and> (0 < left \<longrightarrow> i < k)
     \<and> (w = Written \<longrightarrow> (\<exists>j. i \<le> j \<and> j < k \<and> answer j = WriteOK))"
proof (induction left answer i rule: write_tries.induct)
  case (2 left answer i)
  show ?case
  proof (cases "\<exists>closing. answer i = NoBuffers closing \<and> left \<noteq> 0 \<and> \<not> closing")
    case True
    then have "write_tries left answer (i + 1) = (w, k)" using "2.prems" by auto
    then show ?thesis using "2.IH" True by (metis Suc_eq_plus1 Suc_leD add_Suc_right add_Suc_shift le_eq_less_or_eq not_gr_zero Suc_le_eq)
  qed (use "2.prems" in \<open>auto split: write_answer.splits if_splits\<close>)
qed simp

lemma outgoing_written:
  assumes "handleOutgoingPackets cfg proto micros now rnd answer q c s = Return (OutContinues c' s')"
  shows "written s' = written s \<or>
    (\<exists>n out. Marshal micros (q\<lparr> TcpOptions := Some (tcpOptions c) \<rparr>) (word_of_int proto) (frameBytes s) = Return (Inr (n, out))
       \<and> written s' = written s @ [take n (drop TcpPseudoHeaderLength out)])"
proof -
  define s1 where "s1 = simulate_loss (PacketLostSimulation cfg) rnd s"
  have s1: "frameBytes s1 = frameBytes s" "written s1 = written s"
    by (simp_all add: s1_def simulate_loss_def Let_def)
  have w: "written (if b then x\<lparr> out_count := y, out_packetLost := z \<rparr> else x) = written x" for b x y z by simp
  show ?thesis
    using assms
    by (cases "out_packetLost s1";
        cases "Marshal micros (q\<lparr> TcpOptions := Some (tcpOptions c) \<rparr>) (word_of_int proto) (frameBytes s1)";
        cases "write_frame (DisableResendBackoff cfg) answer")
      (auto simp: handleOutgoingPackets_def s1_def [symmetric] s1 Let_def w go_simps split: sum.splits)
qed

section \<open>What is read\<close>

definition delivered_as :: "packet \<Rightarrow> packet \<Rightarrow> bool" where
  \<comment> \<open>the fields of a packet that travel in the header, and the payload\<close>
  "delivered_as q q' \<longleftrightarrow> SourcePort q' = SourcePort q \<and> DestinationPort q' = DestinationPort q
     \<and> SequenceNumber q' = SequenceNumber q \<and> AcknowledgmentNum q' = AcknowledgmentNum q
     \<and> Flags q' = Flags q \<and> WindowSize q' = WindowSize q \<and> UrgentPointer q' = UrgentPointer q
     \<and> Payload q' = Payload q"

lemma checksum_passes_marshalled:
  assumes "Marshal micros q (word_of_int (pc_protocolId p)) buffer = Return (Inr (n, out))"
    and "SrcAddr q = IPAddr a" "DestAddr q = IPAddr b" "12 \<le> length pre"
  shows "\<exists>pre'. length pre' = length pre
    \<and> checksum_passes (pre @ take n (drop 12 out) @ junk) (length pre) (length pre + n) (IPAddr a) (IPAddr b) p
        = Return (True, pre' @ take n (drop 12 out) @ junk)"
proof -
  define f where "f = take n (drop 12 out)"
  define h where "h = take (length pre - 12) pre"
  define t where "t = drop (length pre - 12) pre"
  have pre: "pre = h @ t" "length t = 12" "length h = length pre - 12"
    using assms(4) by (simp_all add: h_def t_def)
  obtain ph where v: "length ph = 12" "length f = n"
    "VerifyChecksum (t @ f) (IPAddr a) (IPAddr b) (word_of_int (pc_protocolId p)) = Return (True, ph @ f)"
    using marshal_verifies [OF assms(1-3) pre(2)] by (auto simp: f_def)
  have sl: "slice (pre @ f @ junk) (length pre - 12) (length pre + n) = t @ f"
    using pre v(2) by (simp add: slice_def)
  have cp: "copy_at (length pre - 12) (ph @ f) (pre @ f @ junk) = (h @ ph) @ f @ junk"
    using pre v(1,2) by (simp add: copy_at_def)
  have "\<not> length pre < 12" using assms(4) by simp
  then have "checksum_passes (pre @ f @ junk) (length pre) (length pre + n) (IPAddr a) (IPAddr b) p
      = Return (True, (if VerifyChecksumOn (pc_config p) then h @ ph else pre) @ f @ junk)"
    by (simp only: checksum_passes_def TcpPseudoHeaderLength_def sl cp v(3) if_False go_bind.simps prod.case split: if_split) simp
  then show ?thesis
    unfolding f_def [symmetric] using pre(3) v(1) assms(4)
    by (intro exI [of _ "if VerifyChecksumOn (pc_config p) then h @ ph else pre"]) simp
qed

lemma written_frame:
  assumes "handleOutgoingPackets cfg proto micros now rnd answer q c s = Return (OutContinues c' s')"
    and "written s' = written s @ [f]" "options_wanted q (tcpOptions c) \<le> 40"
  defines "q0 \<equiv> q\<lparr> TcpOptions := Some (tcpOptions c) \<rparr>"
  shows "\<exists>out ck. Marshal micros q0 (word_of_int proto) (frameBytes s) = Return (Inr (length f, out))
     \<and> f = take (length f) (drop 12 out) \<and> f = frame_of micros q0 (tcpOptions c) ck"
proof -
  obtain n out where m: "Marshal micros q0 (word_of_int proto) (frameBytes s) = Return (Inr (n, out))" "f = take n (drop 12 out)"
    using outgoing_written [OF assms(1)] assms(2) by (auto simp: q0_def)
  have o: "TcpOptions q0 = Some (tcpOptions c)" "options_wanted q0 (tcpOptions c) \<le> 40"
    using assms(3) by (simp_all add: q0_def options_wanted_def has_ws_def has_mss_def has_permit_def has_sack_def)
  obtain ck where ck: "f = frame_of micros q0 (tcpOptions c) ck" using marshal_frame(2) [OF m(1) o] m(2) by auto
  have "n = length f" using marshal_frame(1) [OF m(1) o] by (simp add: ck length_frame_of [OF o(2)])
  then show ?thesis using m ck by blast
qed

lemma frame_ports:
  "slice (frame_of micros q opts ck @ junk) 0 2 = be16 (SourcePort q)"
  "slice (frame_of micros q opts ck @ junk) 2 4 = be16 (DestinationPort q)"
  by (simp_all add: frame_of_def enc_header_def bytes_simps)

lemma read_frame:
  assumes "handleOutgoingPackets cfg proto micros now rnd answer q c s = Return (OutContinues c' s')"
    and "written s' = written s @ [f]" "options_wanted q (tcpOptions c) \<le> 40"
    and "Payload q \<noteq> [] \<Longrightarrow> answers rp = Some e # rest \<and> length (payloadBytes (Data e)) = 65536"
    and "length (Payload q) \<le> 65536" "40 < fuel"
  shows "\<exists>q' rp'. Unmarshal fuel zero_packet (f @ junk) (length f) src dst rp = Some (Return (None, q', rp'))
    \<and> delivered_as q q' \<and> SrcAddr q' = src \<and> DestAddr q' = dst
    \<and> TcpOptions q' = Some (received_options micros q (tcpOptions c))"
proof -
  define q0 where "q0 = q\<lparr> TcpOptions := Some (tcpOptions c) \<rparr>"
  obtain out where m: "Marshal micros q0 (word_of_int proto) (frameBytes s) = Return (Inr (length f, out))"
    "f = take (length f) (drop 12 out)"
    using written_frame [OF assms(1-3)] by (auto simp: q0_def)
  have o: "TcpOptions q0 = Some (tcpOptions c)" "options_wanted q0 (tcpOptions c) \<le> 40"
    "received_options micros q0 (tcpOptions c) = received_options micros q (tcpOptions c)"
    using assms(3) by (simp_all add: q0_def options_wanted_def received_options_def has_ws_def has_mss_def has_permit_def has_sack_def)
  show ?thesis
    using unmarshal_marshalled [OF m(1) o(1,2), of rp e rest fuel junk src dst] assms(4-6) m(2) o(3)
    by (auto simp: delivered_as_def q0_def)
qed

lemma take_frame_of_buffer: "take (length pre + length f) (pre @ f @ junk) = pre @ f"
  by simp

section \<open>What becomes of a packet that was written\<close>

lemma dispose_cases:
  assumes "dispose_packet now q c = Return c'"
  shows "c' = return_chunk_of q c \<or> (GetSentPacket (SequenceNumber q) (resendPackets c) = None
     \<and> (\<exists>m. resendPackets c' = Some m \<and> c' = c\<lparr> resendPackets := Some m \<rparr>
          \<and> map_of m (SequenceNumber q) = Some \<lparr> LastSentTime = now, ResendCount = 0, pData = q \<rparr>))"
proof (cases "c' = return_chunk_of q c")
  case False
  then have "GetSentPacket (SequenceNumber q) (resendPackets c) = None"
    "go_bind (AddSentPacket now q (resendPackets c)) (\<lambda>m. Return (c\<lparr> resendPackets := m \<rparr>)) = Return c'"
    using assms by (auto simp: dispose_packet_def split: if_splits option.splits)
  then show ?thesis by (auto simp: AddSentPacket_def go_simps update_conv split: option.splits)
qed simp

lemma dispose_returns: "resendPackets c \<noteq> None \<Longrightarrow> \<exists>c'. dispose_packet now q c = Return c'"
  by (auto simp: dispose_packet_def AddSentPacket_def split: option.splits)

lemma outgoing_returns:
  assumes "SrcAddr q = IPAddr a" "DestAddr q = IPAddr b" "To4 a \<noteq> None" "To4 b \<noteq> None"
    and "60 + length (Payload q) + 12 \<le> length (frameBytes s)"
    and "dispose_packet now (q\<lparr> TcpOptions := Some (tcpOptions c) \<rparr>) c = Return c'"
  shows "handleOutgoingPackets cfg proto micros now rnd answer q c s = Return OutEnds
    \<or> (\<exists>s'. handleOutgoingPackets cfg proto micros now rnd answer q c s = Return (OutContinues c' s')
         \<and> length (frameBytes s') = length (frameBytes s))"
proof -
  define q0 where "q0 = q\<lparr> TcpOptions := Some (tcpOptions c) \<rparr>"
  define s1 where "s1 = simulate_loss (PacketLostSimulation cfg) rnd s"
  have s1: "frameBytes s1 = frameBytes s" by (simp add: s1_def simulate_loss_def Let_def)
  obtain n out where m: "Marshal micros q0 (word_of_int proto) (frameBytes s) = Return (Inr (n, out))"
    using marshal_fits [of q0 "tcpOptions c" a b "frameBytes s" micros "word_of_int proto"] assms(1-5) by (auto simp: q0_def)
  have l: "length out = length (frameBytes s)" by (rule marshal_keeps_length [OF m])
  have w: "frameBytes (if x then y\<lparr> out_count := k, out_packetLost := z \<rparr> else y) = frameBytes y" for x y k z by simp
  show ?thesis
    using assms(6) m l
    by (cases "out_packetLost s1"; cases "write_frame (DisableResendBackoff cfg) answer")
      (simp_all add: handleOutgoingPackets_def s1_def [symmetric] q0_def [symmetric] s1 Let_def w)
qed

section \<open>Samples\<close>

definition sample_sender :: connection where
  "sample_sender = (newConnection 7 sample_rp sample_params DefaultConnectionConfig)
     \<lparr> tcpOptions := zero_options\<lparr> mss := 1400, permitSack := True \<rparr> \<rparr>"

definition sample_pconn :: "bool \<Rightarrow> pconn" where
  "sample_pconn server = the (newPcpProtocolConnection True [] \<lparr> answers = [Some sample_element], returned = [] \<rparr> ''k'' server 6
     (IPAddr (if server then [10, 0, 0, 2] else [10, 0, 0, 1])) (IPAddr [10, 0, 0, 2]) DefaultPcpProtocolConnConfig)"

definition sample_server_pconn :: pconn where
  "sample_server_pconn = (sample_pconn True)\<lparr> pc_services := [(newService (IPAddr [10, 0, 0, 2]) 8901 DefaultConnectionConfig, [])],
     pc_serviceMap := Some [(8901, 0)] \<rparr>"

definition sample_client_pconn :: pconn where
  "sample_client_pconn = (sample_pconn False)\<lparr> pc_objs := [(sample_sender, [])],
     pc_connectionMap := Some [(dial_key 8901 40000, 0)] \<rparr>"

definition sample_ip :: bytes where
  "sample_ip = 0x45 # replicate 19 0"

lemma sample_sender_simps [simp]:
  "tcpOptions sample_sender = zero_options\<lparr> mss := 1400, permitSack := True \<rparr>" "isClosed sample_sender = False"
  "config sample_sender = DefaultConnectionConfig"
  by (simp_all add: sample_sender_def newConnection_def Let_def startKeepaliveTimer_def DefaultConnectionConfig_def)

lemma sample_pconn_simps [simp]:
  "pc_isServer (sample_pconn b) = b" "pc_protocolId (sample_pconn b) = 6" "pc_localAddr (sample_pconn b) = IPAddr [10, 0, 0, 2]"
  "pc_serverAddr (sample_pconn b) = IPAddr (if b then [10, 0, 0, 2] else [10, 0, 0, 1])"
  "pc_rpool (sample_pconn b) = \<lparr> answers = [Some sample_element], returned = [] \<rparr>"
  "pc_config (sample_pconn b) = DefaultPcpProtocolConnConfig" "connMutexHeld (sample_pconn b) = []"
  "pc_isClosed (sample_pconn b) = False" "pc_tempConnectionMap (sample_pconn b) = Some []"
  by (simp_all add: sample_pconn_def newPcpProtocolConnection_def)

lemma sample_extract: "ExtractIpPayload (sample_ip @ f) = Inr (length sample_ip)"
  by (simp add: ExtractIpPayload_def sample_ip_def)

lemma sample_written:
  "\<exists>f c' s'. handleOutgoingPackets DefaultPcpProtocolConnConfig 6 0 0 0 (\<lambda>_. WriteOK) sample_packet sample_sender
      (new_outgoing DefaultPcpProtocolConnConfig) = Return (OutContinues c' s') \<and> written s' = [f]"
proof -
  have q0: "sample_packet\<lparr> TcpOptions := Some (tcpOptions sample_sender) \<rparr> = sample_packet"
    by (simp add: sample_packet_def zero_packet_def)
  obtain n out where m: "Marshal 0 sample_packet 6 (frameBytes (new_outgoing DefaultPcpProtocolConnConfig)) = Return (Inr (n, out))"
    using marshal_fits [of sample_packet "tcpOptions sample_sender" "[10, 0, 0, 1]" "[10, 0, 0, 2]"
        "frameBytes (new_outgoing DefaultPcpProtocolConnConfig)" 0 6]
    by (auto simp: sample_packet_def zero_packet_def To4_def new_outgoing_def DefaultPcpProtocolConnConfig_def)
  have w: "write_frame b (\<lambda>_. WriteOK) = Written" for b by (simp add: write_frame_def maxRetries_def eval_nat_numeral)
  have "\<not> PacketLostSimulation DefaultPcpProtocolConnConfig" "\<not> RetransmissionEnabled DefaultConnectionConfig"
    "\<not> out_packetLost (new_outgoing DefaultPcpProtocolConnConfig)"
    by (simp_all add: DefaultPcpProtocolConnConfig_def DefaultConnectionConfig_def new_outgoing_def)
  then show ?thesis
    using m by (simp only: handleOutgoingPackets_def q0 Let_def simulate_loss_def if_False)
      (simp add: w dispose_packet_def new_outgoing_def)
qed

lemma sample_options_fit: "options_wanted sample_packet (tcpOptions sample_sender) \<le> 40"
  by (simp add: options_wanted_def sample_packet_def zero_packet_def zero_options_def has_ws_def has_mss_def has_permit_def has_sack_def)

section \<open>Properties\<close>

text \<open>
  C17. A packet that a client's \<open>handleOutgoingPackets\<close> writes reaches the service it is addressed to:
  the server's reading loop, with the checksum checked or not and any bytes behind the segment in
  its buffer, puts one packet into that service's input channel, with the header fields, the
  payload and the options that were sent and the sender's address.
\<close>

theorem frame_reaches_service:
  assumes "handleOutgoingPackets cfg (pc_protocolId p) micros now rnd answer q c s = Return (OutContinues c' s')"
    and "written s' = written s @ [f]" "options_wanted q (tcpOptions c) \<le> 40"
    and "Payload q \<noteq> [] \<Longrightarrow> answers (pc_rpool p) = Some e # rest \<and> length (payloadBytes (Data e)) = 65536"
    and "length (Payload q) \<le> 65536" "40 < fuel"
    and "SrcAddr q = IPAddr a" "DestAddr q = IPAddr b" "pc_isServer p" "pc_serverAddr p = IPAddr b"
    and "map_get (pc_serviceMap p) (uint (DestinationPort q)) = Some j" "j < length (pc_services p)"
    and "\<not> svc_isClosed (fst (pc_services p ! j))" "\<not> svc_closeSignalClosed (fst (pc_services p ! j))"
    and "length pre = 12"
  shows "\<exists>q' p'. pc_handleIncomingPackets fuel (pre @ f @ junk) (Some (length f, IPAddr a)) p = Some (Return (Delivered j, p'))
    \<and> pc_services p' = (pc_services p)[j := (fst (pc_services p ! j), snd (pc_services p ! j) @ [q'])]
    \<and> delivered_as q q' \<and> SrcAddr q' = IPAddr a \<and> TcpOptions q' = Some (received_options micros q (tcpOptions c))"
proof -
  obtain out where m: "Marshal micros (q\<lparr> TcpOptions := Some (tcpOptions c) \<rparr>) (word_of_int (pc_protocolId p)) (frameBytes s)
      = Return (Inr (length f, out))" "f = take (length f) (drop 12 out)"
    using written_frame [OF assms(1-3)] by blast
  obtain pre' where ck: "length pre' = 12" "checksum_passes (pre @ f @ junk) 12 (12 + length f) (IPAddr a) (IPAddr b) p
      = Return (True, pre' @ f @ junk)"
    using checksum_passes_marshalled [OF m(1), of a b pre junk] assms(7,8,15) m(2) by auto
  obtain q' rp' where u: "Unmarshal fuel zero_packet (f @ junk) (length f) (IPAddr a) (IPAddr b) (pc_rpool p) = Some (Return (None, q', rp'))"
    "delivered_as q q'" "SrcAddr q' = IPAddr a" "TcpOptions q' = Some (received_options micros q (tcpOptions c))"
    using read_frame [OF assms(1-6), of junk "IPAddr a" "IPAddr b"] by blast
  have "DestinationPort q' = DestinationPort q" using u(2) by (simp add: delivered_as_def)
  then show ?thesis
    using assms(9-14) ck u
    by (intro exI [of _ q'] exI [of _ "svc_input j q' (p\<lparr> pc_rpool := rp' \<rparr>)"])
      (simp add: pc_handleIncomingPackets_def serverProcessingIncomingPacket_def server_dispatch_def Let_def svc_input_def)
qed

theorem frame_reaches_service_witness:
  "\<exists>f c' s' q' p'. handleOutgoingPackets DefaultPcpProtocolConnConfig 6 0 0 0 (\<lambda>_. WriteOK) sample_packet sample_sender
      (new_outgoing DefaultPcpProtocolConnConfig) = Return (OutContinues c' s') \<and> written s' = [f]
    \<and> pc_handleIncomingPackets 41 (replicate 12 0 @ f @ [1]) (Some (length f, IPAddr [10, 0, 0, 1])) sample_server_pconn
        = Some (Return (Delivered 0, p'))
    \<and> snd (pc_services p' ! 0) = [q'] \<and> Payload q' = [104, 105] \<and> SequenceNumber q' = 7"
proof -
  obtain f c' s' where w: "handleOutgoingPackets DefaultPcpProtocolConnConfig 6 0 0 0 (\<lambda>_. WriteOK) sample_packet sample_sender
      (new_outgoing DefaultPcpProtocolConnConfig) = Return (OutContinues c' s')" "written s' = [f]"
    using sample_written by blast
  have "\<exists>q' p'. pc_handleIncomingPackets 41 (replicate 12 0 @ f @ [1]) (Some (length f, IPAddr [10, 0, 0, 1])) sample_server_pconn
      = Some (Return (Delivered 0, p'))
    \<and> pc_services p' = (pc_services sample_server_pconn)[0 := (fst (pc_services sample_server_pconn ! 0),
        snd (pc_services sample_server_pconn ! 0) @ [q'])]
    \<and> delivered_as sample_packet q' \<and> SrcAddr q' = IPAddr [10, 0, 0, 1]
    \<and> TcpOptions q' = Some (received_options 0 sample_packet (tcpOptions sample_sender))"
    by (rule frame_reaches_service [where e = sample_element and rest = "[]" and b = "[10, 0, 0, 2]" and c' = c' and s' = s'
          and s = "new_outgoing DefaultPcpProtocolConnConfig" and now = 0 and rnd = 0 and answer = "\<lambda>_. WriteOK"
          and cfg = DefaultPcpProtocolConnConfig])
      (use w sample_options_fit in \<open>simp_all add: sample_server_pconn_def new_outgoing_def sample_element_def
         sample_packet_def zero_packet_def map_get_def newService_def\<close>)
  then show ?thesis
    using w by (fastforce simp: delivered_as_def sample_server_pconn_def newService_def sample_packet_def)
qed


text \<open>
  C18. A packet of the server reaches exactly the connection of its two ports: the client's reading
  loop finds the segment behind the IP header, checks its checksum if it is to, and puts the
  packet with its fields, payload and options into the input channel of the connection that the
  map holds for the ports; no other connection is touched.
\<close>

theorem frame_reaches_connection:
  assumes "handleOutgoingPackets cfg (pc_protocolId p) micros now rnd answer q c s = Return (OutContinues c' s')"
    and "written s' = written s @ [f]" "options_wanted q (tcpOptions c) \<le> 40"
    and "Payload q \<noteq> [] \<Longrightarrow> answers (pc_rpool p) = Some e # rest \<and> length (payloadBytes (Data e)) = 65536"
    and "length (Payload q) \<le> 65536" "40 < fuel"
    and "SrcAddr q = IPAddr a" "DestAddr q = IPAddr b"
    and "\<not> pc_isServer p" "pc_serverAddr p = IPAddr a" "pc_localAddr p = IPAddr b"
    and "map_get (pc_connectionMap p) (dial_key (uint (DestinationPort q)) (uint (SourcePort q))) = Some i"
    and "i < length (pc_objs p)" "i \<notin> set (connMutexHeld p)" "\<not> isClosed (pc_conn p i)"
    and "ExtractIpPayload (ip @ f) = Inr (length ip)" "12 \<le> length ip"
  shows "\<exists>q' p'. pc_handleIncomingPackets fuel (ip @ f @ junk) (Some (length ip + length f, sender)) p = Some (Return (Delivered i, p'))
    \<and> pc_objs p' = (pc_objs p)[i := (pc_conn p i, snd (pc_objs p ! i) @ [q'])]
    \<and> delivered_as q q' \<and> TcpOptions q' = Some (received_options micros q (tcpOptions c))"
proof -
  obtain out k where m: "Marshal micros (q\<lparr> TcpOptions := Some (tcpOptions c) \<rparr>) (word_of_int (pc_protocolId p)) (frameBytes s)
      = Return (Inr (length f, out))" "f = take (length f) (drop 12 out)"
    "f = frame_of micros (q\<lparr> TcpOptions := Some (tcpOptions c) \<rparr>) (tcpOptions c) k"
    using written_frame [OF assms(1-3)] by blast
  obtain ip' where ck: "length ip' = length ip"
    "checksum_passes (ip @ f @ junk) (length ip) (length ip + length f) (IPAddr a) (IPAddr b) p = Return (True, ip' @ f @ junk)"
    using checksum_passes_marshalled [OF m(1), of a b ip junk] assms(7,8,17) m(2) by auto
  obtain q' rp' where u: "Unmarshal fuel zero_packet (f @ junk) (length f) (IPAddr a) (IPAddr b) (pc_rpool p) = Some (Return (None, q', rp'))"
    "delivered_as q q'" "TcpOptions q' = Some (received_options micros q (tcpOptions c))"
    using read_frame [OF assms(1-6), of junk "IPAddr a" "IPAddr b"] by blast
  have ports: "slice (f @ junk) 0 2 = be16 (SourcePort q)" "slice (f @ junk) 2 4 = be16 (DestinationPort q)"
    unfolding m(3) frame_ports by simp_all
  have "20 \<le> length f" unfolding m(3) by (simp add: frame_of_def)
  moreover have "dec (unat (DestinationPort q)) @ '':'' @ dec (unat (SourcePort q)) = dial_key (uint (DestinationPort q)) (uint (SourcePort q))"
    by (simp add: dial_key_def dec_int_def)
  ultimately have "client_dispatch fuel (f @ junk) (length f) p = Some (Return (Delivered i, pc_input i q' (p\<lparr> pc_rpool := rp' \<rparr>)))"
    using assms(10-15) u(1) by (simp add: client_dispatch_def Let_def ports)
  then show ?thesis
    using assms(9-11,16) ck u
    by (intro exI [of _ q'] exI [of _ "pc_input i q' (p\<lparr> pc_rpool := rp' \<rparr>)"])
      (simp add: pc_handleIncomingPackets_def clientProcessingIncomingPacket_def take_frame_of_buffer pc_input_def pc_conn_def)
qed

theorem frame_reaches_connection_witness:
  "\<exists>f c' s' q' p'. handleOutgoingPackets DefaultPcpProtocolConnConfig 6 0 0 0 (\<lambda>_. WriteOK) sample_packet sample_sender
      (new_outgoing DefaultPcpProtocolConnConfig) = Return (OutContinues c' s') \<and> written s' = [f]
    \<and> pc_handleIncomingPackets 41 (sample_ip @ f @ [1]) (Some (length sample_ip + length f, NilAddr)) sample_client_pconn
        = Some (Return (Delivered 0, p'))
    \<and> snd (pc_objs p' ! 0) = [q'] \<and> Payload q' = [104, 105] \<and> SequenceNumber q' = 7"
proof -
  obtain f c' s' where w: "handleOutgoingPackets DefaultPcpProtocolConnConfig 6 0 0 0 (\<lambda>_. WriteOK) sample_packet sample_sender
      (new_outgoing DefaultPcpProtocolConnConfig) = Return (OutContinues c' s')" "written s' = [f]"
    using sample_written by blast
  have "\<exists>q' p'. pc_handleIncomingPackets 41 (sample_ip @ f @ [1]) (Some (length sample_ip + length f, NilAddr)) sample_client_pconn
      = Some (Return (Delivered 0, p'))
    \<and> pc_objs p' = (pc_objs sample_client_pconn)[0 := (pc_conn sample_client_pconn 0, snd (pc_objs sample_client_pconn ! 0) @ [q'])]
    \<and> delivered_as sample_packet q' \<and> TcpOptions q' = Some (received_options 0 sample_packet (tcpOptions sample_sender))"
    by (rule frame_reaches_connection [where e = sample_element and rest = "[]" and a = "[10, 0, 0, 1]" and b = "[10, 0, 0, 2]"
          and c' = c' and s' = s' and s = "new_outgoing DefaultPcpProtocolConnConfig" and now = 0 and rnd = 0
          and answer = "\<lambda>_. WriteOK" and cfg = DefaultPcpProtocolConnConfig])
      (use w sample_options_fit in \<open>simp_all add: sample_client_pconn_def new_outgoing_def sample_element_def
         sample_packet_def zero_packet_def map_get_def pc_conn_def sample_extract, simp add: sample_ip_def\<close>)
  then show ?thesis
    using w by (fastforce simp: delivered_as_def sample_client_pconn_def sample_packet_def)
qed








text \<open>
  C37. A segment of fewer than 20 bytes for an open connection takes that connection's mutex for good:
  \<open>clientProcessingIncomingPacket\<close> returns on the error of \<open>Unmarshal\<close> without the unlock, and the
  next frame with the same ports, whatever it is, blocks the reading loop of the whole protocol
  connection.
\<close>

theorem short_segment_blocks_reader:
  assumes "\<not> pc_isServer p" "\<not> VerifyChecksumOn (pc_config p)"
    and "map_get (pc_connectionMap p) (dial_key (uint dport) (uint sport)) = Some i"
    and "i \<notin> set (connMutexHeld p)" "\<not> isClosed (pc_conn p i)"
    and "f = be16 sport @ be16 dport @ x" "length x < 16" "g = be16 sport @ be16 dport @ y"
    and "ExtractIpPayload (ip @ f) = Inr (length ip)" "ExtractIpPayload (ip' @ g) = Inr (length ip')"
  shows "\<exists>p'. pc_handleIncomingPackets fuel (ip @ f @ junk) (Some (length ip + length f, sender)) p
      = Some (Return (UnmarshalFailed, p'))
    \<and> pc_handleIncomingPackets fuel' (ip' @ g @ junk') (Some (length ip' + length g, sender')) p'
      = Some (Return (BlockedOnMutex, p'))"
proof -
  have k: "dec (unat dport) @ CHR '':'' # dec (unat sport) = dial_key (uint dport) (uint sport)"
    by (simp add: dial_key_def dec_int_def)
  have ports: "slice (be16 sport @ be16 dport @ z) 0 2 = be16 sport" "slice (be16 sport @ be16 dport @ z) 2 4 = be16 dport" for z
    by (simp_all add: bytes_simps)
  define p' where "p' = p\<lparr> connMutexHeld := i # connMutexHeld p \<rparr>"
  have "client_dispatch fuel (f @ junk) (length f) p = Some (Return (UnmarshalFailed, p'))"
    using assms(3-7) by (simp add: client_dispatch_def Let_def ports k Unmarshal_def p'_def)
  moreover have "client_dispatch fuel' (g @ junk') (length g) p' = Some (Return (BlockedOnMutex, p'))"
    using assms(3,8) by (simp add: client_dispatch_def Let_def ports k p'_def)
  ultimately show ?thesis
    using assms(1,2,9,10)
    by (intro exI [of _ p'])
      (simp add: pc_handleIncomingPackets_def clientProcessingIncomingPacket_def take_frame_of_buffer checksum_passes_def p'_def)
qed

theorem short_segment_blocks_reader_witness:
  "\<exists>p'. pc_handleIncomingPackets 41 (sample_ip @ [156, 64, 34, 197] @ []) (Some (24, NilAddr)) sample_client_pconn
      = Some (Return (UnmarshalFailed, p'))
    \<and> pc_handleIncomingPackets 41 (sample_ip @ [156, 64, 34, 197] @ []) (Some (24, NilAddr)) p' = Some (Return (BlockedOnMutex, p'))"
proof -
  have b: "[156, 64, 34, 197] = be16 40000 @ be16 8901 @ []" by (simp add: be16_def)
  show ?thesis
    using short_segment_blocks_reader [of sample_client_pconn 8901 40000 0 "[156, 64, 34, 197]" "[]" "[156, 64, 34, 197]" "[]"
        sample_ip sample_ip 41 "[]" NilAddr 41 "[]" NilAddr] b
    by (simp add: sample_client_pconn_def DefaultPcpProtocolConnConfig_def map_get_def pc_conn_def sample_extract)
      (simp add: sample_ip_def)
qed


text \<open>
  \<open>Close\<close> throws away the replies it waits for: it starts the termination of every connection and
  then forgets the map, so that no frame the peer answers with, acknowledgement or FIN, is
  delivered any more; every connection that is open when its protocol connection is closed ends
  by the time limit.
\<close>

theorem closing_drops_replies:
  assumes "\<not> pc_isServer p" "\<not> pc_isClosed p" "pc_tempConnectionMap p = Some []"
    and "pc_handleIncomingPackets fuel buffer rd (pc_Close_begin p) = Some (Return (r, p'))"
  shows "r \<noteq> Delivered i \<and> pc_objs p' = pc_objs (pc_Close_begin p)"
proof -
  have same: "pc_isServer (begin_closes is p) = pc_isServer p \<and> pc_tempConnectionMap (begin_closes is p) = pc_tempConnectionMap p" for "is" p
    by (induction "is" arbitrary: p) (simp_all add: begin_closes_def pc_set_def)
  define p1 where "p1 = pc_Close_begin p"
  have "\<not> pc_isServer p1" "pc_connectionMap p1 = None" "pc_tempConnectionMap p1 = Some []"
    using assms(1-3) same by (simp_all add: p1_def pc_Close_begin_def Let_def)
  then show ?thesis
    using assms(4) unfolding p1_def [symmetric]
    by (auto simp: pc_handleIncomingPackets_def clientProcessingIncomingPacket_def client_dispatch_def client_temp_def
        map_get_def Let_def split: option.splits sum.splits go.splits bool.splits if_splits)
qed

theorem closing_drops_replies_witness:
  "\<exists>p'. pc_handleIncomingPackets 41 (sample_ip @ [156, 64, 34, 197]) (Some (24, NilAddr)) (pc_Close_begin sample_client_pconn)
      = Some (Return (NoReceiver, p')) \<and> pc_objs p' = pc_objs (pc_Close_begin sample_client_pconn)"
proof -
  have "\<exists>p'. pc_handleIncomingPackets 41 (sample_ip @ [156, 64, 34, 197]) (Some (24, NilAddr)) (pc_Close_begin sample_client_pconn)
      = Some (Return (NoReceiver, p'))"
    by (simp add: pc_Close_begin_def sample_client_pconn_def begin_closes_def map_values_def pc_set_def Let_def
        pc_handleIncomingPackets_def clientProcessingIncomingPacket_def ExtractIpPayload_def
        sample_ip_def checksum_passes_def DefaultPcpProtocolConnConfig_def client_dispatch_def client_temp_def map_get_def Let_def)
  then show ?thesis
    using closing_drops_replies [of sample_client_pconn 41 "sample_ip @ [156, 64, 34, 197]" "Some (24, NilAddr)" NoReceiver]
    by (fastforce simp: sample_client_pconn_def)
qed


text \<open>
  A frame for a service that was closed, and that the protocol connection has not yet forgotten,
  panics the reading loop if it delivered_as no payload: the check on \<open>isClosed\<close> only keeps packets
  with a chunk from the closed input channel.
\<close>

theorem closed_service_panics:
  assumes "svc_Close s = Return s'" "\<not> svc_isClosed s" "chunk packet = None"
    and "map_get (pc_serviceMap p) (uint (DestinationPort packet)) = Some j" "j < length (pc_services p)"
  shows "server_dispatch packet (p\<lparr> pc_services := (pc_services p)[j := (s', inp)] \<rparr>) = Panic"
proof -
  have "svc_closeSignalClosed s'"
    using assms(1,2) by (auto simp: svc_Close_def Let_def go_simps split: if_splits)
  then show ?thesis using assms(3-5) by (simp add: server_dispatch_def Let_def)
qed

theorem closed_service_panics_witness:
  "\<exists>s'. svc_Close (newService (IPAddr [10, 0, 0, 2]) 8901 DefaultConnectionConfig) = Return s'
    \<and> server_dispatch (sample_packet\<lparr> Payload := [] \<rparr>) (sample_server_pconn\<lparr> pc_services := [(s', [])] \<rparr>) = Panic"
proof -
  obtain s' where c: "svc_Close (newService (IPAddr [10, 0, 0, 2]) 8901 DefaultConnectionConfig) = Return s'"
    by (simp add: svc_Close_def newService_def map_values_def Let_def)
  show ?thesis
    using closed_service_panics [OF c, of "sample_packet\<lparr> Payload := [] \<rparr>" sample_server_pconn 0 "[]"] c
    by (simp add: newService_def sample_packet_def zero_packet_def sample_server_pconn_def map_get_def)
qed


end
