(* ===== verification/Handshake.thy ===== *)
theory Handshake
  imports Pconn_Frames
begin

text \<open>
  The 3-way handshake between the two ends: \<open>dial\<close> of \<open>lib/pconn.go\<close> and the service of
  \<open>lib/service.go\<close>, composed over the packets they exchange. \<open>on_wire\<close> is what a receiver gets
  of a packet, as the lemmas on frames show; \<open>handshake\<close> runs the operations of both ends in the
  order in which the packets make them run.
\<close>

section \<open>The composition\<close>

definition on_wire :: "int \<Rightarrow> addr \<Rightarrow> connection \<Rightarrow> packet \<Rightarrow> packet" where
  \<comment> \<open>the sender's options at the time of sending, and the address the frame comes from\<close>
  "on_wire micros src c q = q\<lparr> SrcAddr := src, TcpOptions := Some (received_options micros q (tcpOptions c)) \<rparr>"

definition last_sent :: "connection \<Rightarrow> packet" where
  "last_sent c = (case sigOutputChan c of Some qs \<Rightarrow> last qs | None \<Rightarrow> zero_packet)"

definition handshake ::
  "(nat \<Rightarrow> int) \<Rightarrow> u32 \<Rightarrow> u32 \<Rightarrow> ring_pool \<Rightarrow> ring_pool \<Rightarrow> int \<Rightarrow> int \<Rightarrow> ConnectionConfig \<Rightarrow> addr \<Rightarrow> pconn \<Rightarrow> service
    \<Rightarrow> ((connection \<times> connection) \<times> pconn \<times> service) go" where
  \<comment> \<open>the two connections when \<open>dial\<close> and \<open>Accept\<close> have returned; nothing is lost on the way\<close>
  "handshake clock isn1 isn2 rp1 rp2 now serverPort cfg clientAddr p s =
     go_bind (dial_start isn1 rp1 now True serverPort cfg p) (\<lambda>(r, p1).
       case r of None \<Rightarrow> Panic
       | Some i \<Rightarrow>
           let c1 = pc_conn p1 i; j = length (objs s)
           in go_bind (svc_handleIncomingPackets isn2 rp2 (on_wire (clock 0) clientAddr c1 (last_sent c1)) s) (\<lambda>s1.
                let d1 = obj_conn s1 j
                in go_bind (dial_turn (DialPacket (on_wire (clock 1) (pc_serverAddr p) d1 (last_sent d1))) i p1) (\<lambda>(res, p2).
                     let c2 = pc_conn p2 i; ack = on_wire (clock 2) clientAddr c2 (last_sent c2)
                     in go_bind (svc_handleIncomingPackets isn2 rp2 ack s1) (\<lambda>s2.
                        go_bind (handle3WayHandshake (HandshakePacket ack) (obj_conn s2 j)) (\<lambda>(stop, d2).
                        go_bind (Accept_turn ((set_conn j d2 s2)\<lparr> newConnChannel := newConnChannel s2 @ [j] \<rparr>)) (\<lambda>(acc, s3).
                          Return ((c2, obj_conn s3 j), p2, s3)))))))"

definition agree :: "connection \<Rightarrow> connection \<Rightarrow> bool" where
  \<comment> \<open>the two ends of an open connection expect each other's numbers and use the same limits\<close>
  "agree c d \<longleftrightarrow> isOpenConnection c \<and> isOpenConnection d \<and> \<not> isClosed c \<and> \<not> isClosed d
     \<and> nextSequenceNumber c = lastAckNumber d \<and> nextSequenceNumber d = lastAckNumber c
     \<and> mss (tcpOptions c) = mss (tcpOptions d) \<and> timestampEnabled (tcpOptions c) = timestampEnabled (tcpOptions d)"

section \<open>The client's steps\<close>

lemma on_wire_fields [simp]:
  "SrcAddr (on_wire m a c q) = a" "SourcePort (on_wire m a c q) = SourcePort q"
  "TcpOptions (on_wire m a c q) = Some (received_options m q (tcpOptions c))" "Flags (on_wire m a c q) = Flags q"
  "SequenceNumber (on_wire m a c q) = SequenceNumber q" "AcknowledgmentNum (on_wire m a c q) = AcknowledgmentNum q"
  "has_flag (on_wire m a c q) f = has_flag q f"
  by (simp_all add: on_wire_def has_flag_def)

lemma signal_packet_port: "SourcePort (signal_packet s a f c) = word_of_int (localPort (params c))"
  by (simp add: signal_packet_def NewPcpPacket_def)

lemma newConnection_fields:
  "params (newConnection isn rp ps cfg) = ps" "sigOutputChan (newConnection isn rp ps cfg) = Some []"
  "initialSeq (newConnection isn rp ps cfg) = isn" "nextSequenceNumber (newConnection isn rp ps cfg) = isn"
  "isClosed (newConnection isn rp ps cfg) = False" "mss (tcpOptions (newConnection isn rp ps cfg)) = word_of_int (PreferredMSS cfg)"
  "timestampEnabled (tcpOptions (newConnection isn rp ps cfg)) = True"
  by (simp_all add: newConnection_def startKeepaliveTimer_def Let_def)

lemma dial_sends_syn:
  assumes "allocatePort now (localPortPool p) = (Inr x, pool)" "pc_tempConnectionMap p = Some ts"
  shows "\<exists>p1 c1. dial_start isn rp now True serverPort cfg p = Return (Some (length (pc_objs p)), p1)
    \<and> pc_conn p1 (length (pc_objs p)) = c1 \<and> length (pc_objs p) < length (pc_objs p1)
    \<and> pc_connectionMap p1 = pc_connectionMap p \<and> localPortPool p1 = pool \<and> pc_tempConnectionMap p1 \<noteq> None
    \<and> pc_isClosed p1 = pc_isClosed p \<and> localPort (params c1) = x \<and> key (params c1) = dial_key x serverPort \<and> initialSeq c1 = isn \<and> nextSequenceNumber c1 = SeqIncrement isn
    \<and> connSignalTimer c1 \<noteq> None \<and> \<not> isClosed c1 \<and> sigOutputChan c1 \<noteq> None
    \<and> mss (tcpOptions c1) = word_of_int (PreferredMSS cfg) \<and> timestampEnabled (tcpOptions c1)
    \<and> Flags (last_sent c1) = SYNFlag \<and> SequenceNumber (last_sent c1) = isn
    \<and> SourcePort (last_sent c1) = word_of_int x \<and> \<not> IsOpenConnection (last_sent c1)"
proof -
  define ps where "ps = \<lparr> key = dial_key x serverPort, isServer = False, remoteAddr = pc_serverAddr p, localAddr = pc_localAddr p,
      remotePort = serverPort, localPort = x \<rparr>"
  define c where "c = newConnection isn rp ps cfg"
  define c1 where "c1 = (startConnSignalTimer (initSendSyn c))\<lparr> nextSequenceNumber :=
      SeqIncrement (nextSequenceNumber (startConnSignalTimer (initSendSyn c))) \<rparr>"
  let ?n = "length (pc_objs p)"
  define p0 where "p0 = p\<lparr> localPortPool := pool, pc_objs := pc_objs p @ [(c, [])],
      pc_tempConnectionMap := Some (AList.update (dial_key x serverPort) ?n ts) \<rparr>"
  have d: "dial_start isn rp now True serverPort cfg p = Return (Some ?n, pc_set ?n c1 p0)"
    using assms by (simp add: dial_start_def Let_def map_put_def c_def ps_def c1_def p0_def)
  have f: "sigOutputChan c1 = Some [(signal_packet isn 0 SYNFlag c)\<lparr> IsOpenConnection := False \<rparr>]"
    "params c1 = ps" "initialSeq c1 = isn" "nextSequenceNumber c1 = SeqIncrement isn" "connSignalTimer c1 \<noteq> None"
    "isClosed c1 = False" "tcpOptions c1 = tcpOptions c" "params c = ps"
    by (simp_all add: c1_def c_def startConnSignalTimer_def initSendSyn_def send_signal_def newConnection_fields)
  have "pc_conn (pc_set ?n c1 p0) ?n = c1" by (simp add: p0_def)
  then show ?thesis
    using d f by (intro exI [of _ "pc_set ?n c1 p0"] exI [of _ c1])
      (simp add: p0_def last_sent_def signal_packet_port ps_def c_def newConnection_fields)
qed

lemma synack_opens_client:
  assumes "pc_conn p1 i = c1" "i < length (pc_objs p1)" "pc_connectionMap p1 = Some ms" "connSignalTimer c1 = Some t"
    and "Flags q = SYNFlag OR ACKFlag" "TcpOptions q = Some theirs" "sigOutputChan c1 = Some sent"
  shows "\<exists>p2 c2. dial_turn (DialPacket q) i p1 = Return (Dialed, p2) \<and> pc_conn p2 i = c2
    \<and> isOpenConnection c2 \<and> isClosed c2 = isClosed c1 \<and> nextSequenceNumber c2 = nextSequenceNumber c1
    \<and> lastAckNumber c2 = SeqIncrement (SequenceNumber q) \<and> tcpOptions c2 = negotiate_client theirs (tcpOptions c1)
    \<and> Flags (last_sent c2) = ACKFlag \<and> SourcePort (last_sent c2) = word_of_int (localPort (params c1))
    \<and> map_get (pc_connectionMap p2) (key (params c1)) = Some i"
proof -
  define c0 where "c0 = c1\<lparr> connSignalTimer := Some (timer_Stop t) \<rparr>"
  define p' where "p' = p1\<lparr> pc_tempConnectionMap := map_delete (key (params c1)) (pc_tempConnectionMap p1),
      pc_connectionMap := Some (AList.update (key (params c1)) i ms) \<rparr>"
  define c2 where "c2 = dial_established q theirs c0"
  have d: "dial_turn (DialPacket q) i p1 = Return (Dialed, pc_set i c2 p')"
    using assms by (simp add: dial_turn_def Let_def stopConnSignalTimer_def map_put_def c0_def c2_def p'_def)
  have l: "pc_conn (pc_set i c2 p') i = c2" using assms(2) by (simp add: p'_def)
  show ?thesis
    using d l assms(7)
    by (intro exI [of _ "pc_set i c2 p'"] exI [of _ c2])
      (simp add: c2_def c0_def dial_established_def Let_def initSendAck_def send_signal_def startResendTimer_def
        last_sent_def signal_packet_port p'_def map_get_def update_conv)
qed

lemma negotiate_client_simps [simp]:
  "mss (negotiate_client theirs o0) = (if mss theirs = 0 then 0 else min (mss theirs) (mss o0))"
  "timestampEnabled (negotiate_client theirs o0) = timestampEnabled theirs"
  by (auto simp: negotiate_client_def Let_def min_def word_greater_zero_iff not_less dest: order.antisym)

lemma received_simps [simp]:
  "\<not> IsOpenConnection q \<Longrightarrow> mss (received_options m q opts) = mss opts"
  "timestampEnabled (received_options m q opts) = timestampEnabled opts"
  by (auto simp: received_options_def has_mss_def zero_options_def word_greater_zero_iff)

section \<open>Properties\<close>

text \<open>
  C3. A dial reaches the service and both ends open: with a free port and a service that does not
  know the client's address and port, the packets of the handshake make every check of both ends
  pass, \<open>dial\<close> and \<open>Accept\<close> return, each end expects the other's next number, both have the
  smaller of the two segment limits (0 if the client has none), and each end is in its map.
\<close>

theorem handshake_opens_both_ends:
  assumes "allocatePort now (localPortPool p) = (Inr x, pool)" "pc_tempConnectionMap p = Some ts" "pc_connectionMap p = Some ms"
    and "connectionMap s = Some cs" "tempConnMap s = Some hs" "To4 ip = Some b"
    and "k = to4_string ip @ '':'' @ dec (unat (word_of_int x :: u16))" "map_of cs k = None" "map_of hs k = None"
    and "newConnChannel s = []" "\<not> svc_closeSignalClosed s"
  shows "\<exists>c d p2 s3. handshake clock isn1 isn2 rp1 rp2 now serverPort cfg (IPAddr ip) p s = Return ((c, d), p2, s3)
    \<and> agree c d \<and> nextSequenceNumber c = isn1 + 1 \<and> nextSequenceNumber d = isn2 + 1
    \<and> mss (tcpOptions c) = (if word_of_int (PreferredMSS cfg) = (0 :: u16) then 0
         else min (word_of_int (PreferredMSS cfg)) (word_of_int (PreferredMSS (svc_connConfig s))))
    \<and> map_get (pc_connectionMap p2) (dial_key x serverPort) = Some (length (pc_objs p))
    \<and> map_get (connectionMap s3) k = Some (length (objs s)) \<and> map_get (tempConnMap s3) k = None"
proof -
  let ?i = "length (pc_objs p)" and ?j = "length (objs s)"
  obtain p1 c1 where p1: "dial_start isn1 rp1 now True serverPort cfg p = Return (Some ?i, p1)" "pc_conn p1 ?i = c1"
    "?i < length (pc_objs p1)" "pc_connectionMap p1 = Some ms" and c1: "localPort (params c1) = x" "key (params c1) = dial_key x serverPort"
    "nextSequenceNumber c1 = SeqIncrement isn1" "connSignalTimer c1 \<noteq> None" "\<not> isClosed c1" "sigOutputChan c1 \<noteq> None"
    "mss (tcpOptions c1) = word_of_int (PreferredMSS cfg)" "timestampEnabled (tcpOptions c1)"
    and syn: "Flags (last_sent c1) = SYNFlag" "SequenceNumber (last_sent c1) = isn1" "SourcePort (last_sent c1) = word_of_int x"
    "\<not> IsOpenConnection (last_sent c1)"
    using dial_sends_syn [OF assms(1,2)] assms(3) by metis
  define q1 where "q1 = on_wire (clock 0) (IPAddr ip) c1 (last_sent c1)"
  define theirs where "theirs = received_options (clock 0) (last_sent c1) (tcpOptions c1)"
  define d1 where "d1 = syn_conn isn2 rp2 k q1 theirs s"
  define s1 where "s1 = s\<lparr> objs := objs s @ [(d1, [])], tempConnMap := Some (hs @ [(k, ?j)]) \<rparr>"
  have flags: "(2 :: u8) AND 16 = 0" "(2 OR 16 :: u8) AND 16 \<noteq> 0" "(16 :: u8) AND 2 = 0" by simp_all
  have "handleSynPacket isn2 rp2 q1 s = Return s1"
    unfolding s1_def d1_def
    by (rule syn_opens) (use assms(4,5,7-9) syn(3) in \<open>simp_all add: q1_def theirs_def map_get_def\<close>)
  then have s1: "svc_handleIncomingPackets isn2 rp2 q1 s = Return s1"
    using syn(1) flags by (simp add: svc_handleIncomingPackets_def q1_def has_flag_def)
  have d1: "obj_conn s1 ?j = d1" by (simp add: s1_def obj_conn_def)
  define q2 where "q2 = on_wire (clock 1) (pc_serverAddr p) d1 (last_sent d1)"
  have sa: "Flags q2 = SYNFlag OR ACKFlag" "SequenceNumber q2 = isn2" "\<not> IsOpenConnection (last_sent d1)"
    by (simp_all add: q2_def d1_def last_sent_def syn_conn_signal)
  obtain t sent where ts: "connSignalTimer c1 = Some t" "sigOutputChan c1 = Some sent" using c1(4,6) by blast
  obtain p2 c2 where p2: "dial_turn (DialPacket q2) ?i p1 = Return (Dialed, p2)" "pc_conn p2 ?i = c2"
    and c2: "isOpenConnection c2" "isClosed c2 = isClosed c1" "nextSequenceNumber c2 = nextSequenceNumber c1"
    "lastAckNumber c2 = SeqIncrement isn2" "tcpOptions c2 = negotiate_client (received_options (clock 1) (last_sent d1) (tcpOptions d1)) (tcpOptions c1)"
    "Flags (last_sent c2) = ACKFlag" "SourcePort (last_sent c2) = word_of_int x"
    "map_get (pc_connectionMap p2) (dial_key x serverPort) = Some ?i"
    using synack_opens_client [OF p1(2-4) ts(1) sa(1) _ ts(2), of "received_options (clock 1) (last_sent d1) (tcpOptions d1)"]
      sa(2) c1(1,2) by (auto simp: q2_def)
  define q3 where "q3 = on_wire (clock 2) (IPAddr ip) c2 (last_sent c2)"
  have q3: "SrcAddr q3 = IPAddr ip" "\<not> has_flag q3 SYNFlag" "has_flag q3 ACKFlag" "TcpOptions q3 \<noteq> None"
    "k = to4_string ip @ '':'' @ dec (unat (SourcePort q3))"
    using c2(6,7) flags assms(7) by (simp_all add: q3_def has_flag_def)
  have maps: "tempConnMap s1 = Some (hs @ [(k, ?j)])" "map_of (hs @ [(k, ?j)]) k = Some ?j" "connectionMap s1 = Some cs"
    "?j < length (objs s1)" "newConnChannel s1 = []" "\<not> svc_closeSignalClosed s1"
    using assms(4,9-11) by (simp_all add: s1_def map_add_def)
  have dp: "key (params d1) = k" "initServerState d1 = SynAckSent" "connSignalTimer d1 \<noteq> None" "\<not> isClosed d1"
    by (simp_all add: d1_def syn_params_def)
  obtain s2 d2 s3 where s2: "svc_handleIncomingPackets isn2 rp2 q3 s1 = Return s2"
    "handle3WayHandshake (HandshakePacket q3) (obj_conn s2 ?j) = Return (True, d2)"
    "Accept_turn ((set_conn ?j d2 s2)\<lparr> newConnChannel := [?j] \<rparr>) = Return (Accepted ?j, s3)"
    "map_get (connectionMap s3) k = Some ?j" "map_get (tempConnMap s3) k = None" "obj_conn s3 ?j = d2"
    and d2: "isOpenConnection d2" "lastAckNumber d2 = lastAckNumber d1" "nextSequenceNumber d2 = nextSequenceNumber d1"
    "mss (tcpOptions d2) = mss (tcpOptions d1)" "timestampEnabled (tcpOptions d2) = timestampEnabled (tcpOptions d1)"
    "isClosed d2 = isClosed d1" "newConnChannel s2 = []"
    using ack_opens_and_accepts [OF maps(1-3) assms(8) maps(4) d1 dp q3(1) assms(6) q3(5,2-4) maps(5,6), of isn2 rp2] by blast
  have "handshake clock isn1 isn2 rp1 rp2 now serverPort cfg (IPAddr ip) p s = Return ((c2, d2), p2, s3)"
    using p1 s1 p2 s2 d2(7) by (simp add: handshake_def Let_def q1_def [symmetric] q2_def [symmetric] q3_def [symmetric] d1 del: One_nat_def)
  moreover have m: "mss (tcpOptions c2) = mss (tcpOptions d1)" "mss (tcpOptions d1) = (if word_of_int (PreferredMSS cfg) = (0 :: u16) then 0
      else min (word_of_int (PreferredMSS cfg)) (word_of_int (PreferredMSS (svc_connConfig s))))"
    "timestampEnabled (tcpOptions c2) = timestampEnabled (tcpOptions d1)"
    using c1(7) sa(3) syn(4)
    by (auto simp: c2(5) d1_def theirs_def negotiate_mss negotiate_flags newConnection_fields min_def)
  moreover have "agree c2 d2"
    using c1 c2 d2 m dp(4) syn(2) by (simp add: agree_def d1_def q1_def)
  ultimately show ?thesis
    using c1(3) c2(3,8) d2(3) s2(4,5) by (auto simp: d1_def SeqIncrement_def)
qed

theorem handshake_opens_both_ends_witness:
  "\<exists>c d p2 s3. handshake (\<lambda>_. 0) 7 500 sample_rp sample_rp 0 8901 DefaultConnectionConfig (IPAddr [10, 0, 0, 1])
      fresh_client sample_service = Return ((c, d), p2, s3)
    \<and> agree c d \<and> nextSequenceNumber c = 8 \<and> mss (tcpOptions d) = 1400"
proof -
  obtain pool where al: "allocatePort 0 (localPortPool fresh_client) = (Inr 32768, pool)"
    by (simp add: fresh_client_def newPcpProtocolConnection_def newPortPool_def allocatePort_def Let_def)
  have f: "pc_tempConnectionMap fresh_client = Some []" "pc_connectionMap fresh_client = Some []"
    by (simp_all add: fresh_client_def newPcpProtocolConnection_def)
  have s: "connectionMap sample_service = Some []" "tempConnMap sample_service = Some []" "newConnChannel sample_service = []"
    "\<not> svc_closeSignalClosed sample_service" "PreferredMSS (svc_connConfig sample_service) = 1400"
    by (simp_all add: sample_service_def newService_def DefaultConnectionConfig_def)
  have i: "To4 [10, 0, 0, 1] = Some [10, 0, 0, 1]" by (simp add: To4_def)
  show ?thesis
    using handshake_opens_both_ends [OF al f s(1,2) i refl _ _ s(3,4), of "\<lambda>_. 0" 7 500 sample_rp sample_rp 8901 DefaultConnectionConfig] s(5)
    by (fastforce simp: agree_def DefaultConnectionConfig_def)
qed

end
