(* ===== verification/Core.thy ===== *)
theory Core
  imports Handshake
begin

text \<open>
  \<open>lib/pcpcore.go\<close> and \<open>findLocalIP\<close> of \<open>lib/utils.go\<close>: the core, which finds or makes the
  protocol connection of an address pair and dials or listens on it. Name resolution
  (\<open>net.ResolveIPAddr\<close>, \<open>net.ParseIP\<close>), the list of network interfaces, the raw socket library
  and the packet filter answer from outside: their answers are arguments. \<open>pconns\<close> is the store of
  the protocol connections made; the map holds indices into it.
\<close>

section \<open>The code: the local address\<close>

record iface =
  iface_up :: bool
  iface_loopback :: bool
  iface_addrs :: "bytes option list option"
    \<comment> \<open>\<open>None\<close>: asking for them failed; an entry \<open>None\<close> is not a \<open>*net.IPNet\<close>\<close>

definition contains24 :: "bytes \<Rightarrow> bytes \<Rightarrow> bool" where
  \<comment> \<open>\<open>(&net.IPNet{IP: n, Mask: net.CIDRMask(24, 32)}).Contains(x)\<close>\<close>
  "contains24 n x =
     (case To4 n of None \<Rightarrow> False
      | Some nn \<Rightarrow> let y = (case To4 x of Some y \<Rightarrow> y | None \<Rightarrow> x)
                  in length y = length nn \<and> take 3 y = take 3 nn)"

fun scan_addrs :: "(bytes \<Rightarrow> bool) \<Rightarrow> bytes option list \<Rightarrow> bytes option" where
  "scan_addrs ok [] = None"
| "scan_addrs ok (None # rest) = scan_addrs ok rest"
| "scan_addrs ok (Some ip # rest) =
     (if To4 ip = None then scan_addrs ok rest
      else if ok ip then Some ip else scan_addrs ok rest)"

fun scan_ifaces :: "(bytes \<Rightarrow> bool) \<Rightarrow> iface list \<Rightarrow> bytes option" where
  "scan_ifaces ok [] = None"
| "scan_ifaces ok (i # rest) =
     (if \<not> iface_up i \<or> iface_loopback i then scan_ifaces ok rest
      else case iface_addrs i of None \<Rightarrow> scan_ifaces ok rest
      | Some addrs \<Rightarrow> (case scan_addrs ok addrs of Some ip \<Rightarrow> Some ip | None \<Rightarrow> scan_ifaces ok rest))"

datatype core_error = InvalidTarget | InterfacesFailed | NoLocalIP | ResolveFailed | SocketFailed
  | DialError | FilterError | PortTaken | RsCloseFailed

definition findLocalIP :: "bytes option \<Rightarrow> iface list option \<Rightarrow> core_error + string" where
  "findLocalIP target interfaces =
     (case target of None \<Rightarrow> Inl InvalidTarget
      | Some t \<Rightarrow> (case interfaces of None \<Rightarrow> Inl InterfacesFailed
      | Some ifs \<Rightarrow>
          (case scan_ifaces (\<lambda>ip. contains24 ip t \<or> contains24 t ip) ifs of Some ip \<Rightarrow> Inr (ip_string ip)
           | None \<Rightarrow> (case scan_ifaces (\<lambda>_. True) ifs of Some ip \<Rightarrow> Inr (ip_string ip) | None \<Rightarrow> Inl NoLocalIP))))"

section \<open>The code: state\<close>

record PcpCoreConfig =
  ProtocolID :: u8
  PayloadPoolSize :: int
  core_PreferredMSS :: int
  core_Debug :: bool
  PoolDebug :: bool
  ProcessTimeThreshold :: int
  core_pconnConfig :: PcpProtocolConnConfig

definition DefaultPcpCoreConfig :: PcpCoreConfig where
  "DefaultPcpCoreConfig =
     \<lparr> ProtocolID = 6, PayloadPoolSize = 2000, core_PreferredMSS = 1440, core_Debug = False, PoolDebug = False,
       ProcessTimeThreshold = 10, core_pconnConfig = DefaultPcpProtocolConnConfig \<rparr>"

record PcpCore =
  core_config :: PcpCoreConfig
  pconns :: "pconn list"
  protoConnectionMap :: "(string \<times> nat) list option"
  core_closeSignalClosed :: bool
  core_hasRsCore :: bool

definition NewPcpCore :: "PcpCoreConfig \<Rightarrow> bool \<Rightarrow> PcpCore go" where
  \<comment> \<open>\<open>rscore\<close>: whether it is not nil\<close>
  "NewPcpCore cfg rscore =
     (if \<not> rscore then Fatal
      else Return \<lparr> core_config = cfg, pconns = [], protoConnectionMap = Some [],
             core_closeSignalClosed = False, core_hasRsCore = rscore \<rparr>)"

definition core_set :: "nat \<Rightarrow> pconn \<Rightarrow> PcpCore \<Rightarrow> PcpCore" where
  "core_set j p core = core\<lparr> pconns := (pconns core)[j := p] \<rparr>"

section \<open>The code: dialling\<close>

definition client_key :: "bytes \<Rightarrow> bytes \<Rightarrow> string" where
  "client_key server local = to4_string server @ ''-'' @ to4_string local"

definition new_pconn ::
  "bool \<Rightarrow> nat list \<Rightarrow> ring_pool \<Rightarrow> string \<Rightarrow> bool \<Rightarrow> addr \<Rightarrow> addr \<Rightarrow> PcpCore \<Rightarrow> (nat option \<times> PcpCore) go" where
  \<comment> \<open>a new protocol connection, added to the map\<close>
  "new_pconn socket_ok perm rp ky server saddr laddr core =
     (case newPcpProtocolConnection socket_ok perm rp ky server (uint (ProtocolID (core_config core))) saddr laddr
             (core_pconnConfig (core_config core)) of
        None \<Rightarrow> Return (None, core)
      | Some pConn \<Rightarrow>
          go_bind (map_put ky (length (pconns core)) (protoConnectionMap core)) (\<lambda>m.
            Return (Some (length (pconns core)), core\<lparr> pconns := pconns core @ [pConn], protoConnectionMap := m \<rparr>)))"

definition client_pconn ::
  "bool \<Rightarrow> nat list \<Rightarrow> ring_pool \<Rightarrow> string \<Rightarrow> addr \<Rightarrow> addr \<Rightarrow> PcpCore \<Rightarrow> (nat option \<times> PcpCore) go" where
  \<comment> \<open>the protocol connection in the map, unless it is closed, or a new one\<close>
  "client_pconn socket_ok perm rp ky saddr laddr core =
     (case map_get (protoConnectionMap core) ky of
        Some j \<Rightarrow>
          if pc_isClosed (pconns core ! j)
          then new_pconn socket_ok perm rp ky False saddr laddr
                 (core\<lparr> protoConnectionMap := map_delete ky (protoConnectionMap core) \<rparr>)
          else Return (Some j, core)
      | None \<Rightarrow> new_pconn socket_ok perm rp ky False saddr laddr core)"

record dial_answers =
  \<comment> \<open>what the program asks of its surroundings during a dial\<close>
  resolved :: "string \<Rightarrow> bytes option"
  parsed :: "string \<Rightarrow> bytes option"
  interfaces :: "iface list option"
  socketOk :: bool
  portPerm :: "nat list"
  isnChosen :: u32
  poolAnswers :: ring_pool
  clockNow :: int
  filterOk :: bool

definition DialPcp_begin ::
  "dial_answers \<Rightarrow> string \<Rightarrow> string \<Rightarrow> u16 \<Rightarrow> ConnectionConfig \<Rightarrow> PcpCore \<Rightarrow> ((core_error + nat \<times> nat) \<times> PcpCore) go" where
  \<comment> \<open>up to the wait for the SYN-ACK: the protocol connection and the connection it waits with\<close>
  "DialPcp_begin a localIP serverIP serverPort cfg core =
     (case resolved a serverIP of None \<Rightarrow> Return (Inl ResolveFailed, core)
      | Some server \<Rightarrow>
          (case (if localIP = [] then findLocalIP (parsed a serverIP) (interfaces a) else Inr localIP) of
            Inl e \<Rightarrow> Return (Inl e, core)
          | Inr localIP' \<Rightarrow>
              (case resolved a localIP' of None \<Rightarrow> Return (Inl ResolveFailed, core)
              | Some local \<Rightarrow>
                  let pConnKey = client_key server local
                  in go_bind (client_pconn (socketOk a) (portPerm a) (poolAnswers a) pConnKey (IPAddr server) (IPAddr local) core)
                       (\<lambda>(r, core1). case r of None \<Rightarrow> Return (Inl SocketFailed, core1)
                          | Some j \<Rightarrow>
                              go_bind (dial_start (isnChosen a) (poolAnswers a) (clockNow a) (filterOk a) (uint serverPort) cfg (pconns core1 ! j))
                                (\<lambda>(d, p). let core2 = core_set j p core1 in
                                   case d of Some i \<Rightarrow> Return (Inr (j, i), core2)
                                   | None \<Rightarrow> Return (Inl DialError,
                                       core2\<lparr> protoConnectionMap := map_delete pConnKey (protoConnectionMap core2) \<rparr>))))))"

definition DialPcp_turn :: "dial_event \<Rightarrow> string \<Rightarrow> nat \<Rightarrow> nat \<Rightarrow> PcpCore \<Rightarrow> ((core_error + nat \<times> nat) option \<times> PcpCore) go" where
  \<comment> \<open>one turn of the wait: \<open>None\<close> while it goes on\<close>
  "DialPcp_turn ev pConnKey j i core =
     go_bind (dial_turn ev i (pconns core ! j)) (\<lambda>(r, p).
       let core1 = core_set j p core in
       case r of DialWaits \<Rightarrow> Return (None, core1)
       | Dialed \<Rightarrow> Return (Some (Inr (j, i)), core1)
       | DialFailed \<Rightarrow> Return (Some (Inl DialError),
           core1\<lparr> protoConnectionMap := map_delete pConnKey (protoConnectionMap core1) \<rparr>))"

section \<open>The code: listening\<close>

definition ListenPcp ::
  "bytes option \<Rightarrow> bool \<Rightarrow> nat list \<Rightarrow> ring_pool \<Rightarrow> bool \<Rightarrow> int \<Rightarrow> ConnectionConfig \<Rightarrow> PcpCore
     \<Rightarrow> ((core_error + nat \<times> nat) \<times> PcpCore) go" where
  \<comment> \<open>the protocol connection and the service on it\<close>
  "ListenPcp resolved_ip socket_ok perm rp filter_ok prt cfg core =
     (case resolved_ip of None \<Rightarrow> Return (Inl ResolveFailed, core)
      | Some ip \<Rightarrow>
          let pConnKey = to4_string ip
          in go_bind (case map_get (protoConnectionMap core) pConnKey of
                Some j \<Rightarrow> Return (Some j, core)
              | None \<Rightarrow> new_pconn socket_ok perm rp pConnKey True (IPAddr ip) NilAddr core)
            (\<lambda>(r, core1). case r of None \<Rightarrow> Return (Inl SocketFailed, core1)
              | Some j \<Rightarrow>
                  let p = pconns core1 ! j in
                  if map_get (pc_serviceMap p) prt \<noteq> None then Return (Inl PortTaken, core1)
                  else
                    let srv = newService (IPAddr ip) prt cfg; n = length (pc_services p);
                        p1 = p\<lparr> pc_services := pc_services p @ [(srv, [])] \<rparr>
                    in if \<not> filter_ok then Return (Inl FilterError, core_set j p1 core1)
                       else go_bind (map_put prt n (pc_serviceMap p1)) (\<lambda>m.
                              Return (Inr (j, n), core_set j (p1\<lparr> pc_serviceMap := m \<rparr>) core1))))"

section \<open>The code: closing\<close>

definition handleClosePConnConnection :: "nat \<Rightarrow> PcpCore \<Rightarrow> PcpCore" where
  \<comment> \<open>the message that protocol connection \<open>j\<close> has closed\<close>
  "handleClosePConnConnection j core =
     (let k = pc_key (pconns core ! j) in
      case map_get (protoConnectionMap core) k of
        None \<Rightarrow> core
      | Some _ \<Rightarrow> core\<lparr> protoConnectionMap := map_delete k (protoConnectionMap core) \<rparr>)"

fun close_pconns :: "nat list \<Rightarrow> PcpCore \<Rightarrow> PcpCore go" where
  "close_pconns [] core = Return core"
| "close_pconns (j # js) core = go_bind (pc_Close (pconns core ! j)) (\<lambda>p. close_pconns js (core_set j p core))"

definition core_Close :: "bool \<Rightarrow> PcpCore \<Rightarrow> (core_error option \<times> PcpCore) go" where
  \<comment> \<open>\<open>rs_ok\<close>: the answer of the raw socket library to its own close\<close>
  "core_Close rs_ok core =
     go_bind (close_pconns (map_values (protoConnectionMap core)) core) (\<lambda>core1.
       let core2 = core1\<lparr> protoConnectionMap := None \<rparr>
       in if core_closeSignalClosed core2 then Panic
          else let core3 = core2\<lparr> core_closeSignalClosed := True \<rparr>
               in Return (if core_hasRsCore core3 \<and> \<not> rs_ok then Some RsCloseFailed else None, core3))"

section \<open>Runs of the core\<close>

inductive core_step :: "PcpCore \<Rightarrow> PcpCore \<Rightarrow> bool" where
  dial_begin: "DialPcp_begin a localIP serverIP serverPort cfg core = Return (r, core') \<Longrightarrow> core_step core core'"
| dial_wait: "j < length (pconns core) \<Longrightarrow>
    DialPcp_turn ev (pc_key (pconns core ! j)) j i core = Return (r, core') \<Longrightarrow> core_step core core'"
| listen: "ListenPcp ip socket_ok perm rp filter_ok prt cfg core = Return (r, core') \<Longrightarrow> core_step core core'"
| pconn_turn: "j < length (pconns core) \<Longrightarrow> pc_step (pconns core ! j) p \<Longrightarrow> core' = core_set j p core \<Longrightarrow> core_step core core'"
| pconn_closed: "core' = handleClosePConnConnection j core \<Longrightarrow> core_step core core'"
| closing: "core_Close rs_ok core = Return (r, core') \<Longrightarrow> core_step core core'"

definition core_ok :: "PcpCore \<Rightarrow> bool" where
  "core_ok core \<longleftrightarrow> distinct (map fst (entries (protoConnectionMap core)))
     \<and> (\<forall>(k, j) \<in> set (entries (protoConnectionMap core)). j < length (pconns core) \<and> pc_key (pconns core ! j) = k)
     \<and> (core_closeSignalClosed core \<longrightarrow> protoConnectionMap core = None)"

lemma core_ok_same:
  assumes "core_ok core" "\<And>j. j < length (pconns core) \<Longrightarrow> pc_key (pconns core' ! j) = pc_key (pconns core ! j)"
    and "length (pconns core) \<le> length (pconns core')"
    and "protoConnectionMap core' = protoConnectionMap core \<or> protoConnectionMap core' = map_delete k (protoConnectionMap core)"
    and "core_closeSignalClosed core' = core_closeSignalClosed core"
  shows "core_ok core'"
proof -
  let ?m = "entries (protoConnectionMap core)" and ?m' = "entries (protoConnectionMap core')"
  have m: "distinct (map fst ?m)" "\<forall>(k, j) \<in> set ?m. j < length (pconns core) \<and> pc_key (pconns core ! j) = k"
    "core_closeSignalClosed core \<longrightarrow> protoConnectionMap core = None"
    using assms(1) by (simp_all add: core_ok_def)
  have sub: "set ?m' \<subseteq> set ?m" using assms(4) by (auto simp: AList.delete_eq)
  have "distinct (map fst ?m')" using assms(4) m(1) distinct_delete by auto
  moreover have "j < length (pconns core') \<and> pc_key (pconns core' ! j) = k" if "(k, j) \<in> set ?m'" for k j
  proof -
    have "(k, j) \<in> set ?m" using sub that by blast
    then have "j < length (pconns core)" "pc_key (pconns core ! j) = k" using m(2) by auto
    then show ?thesis using assms(2) [of j] assms(3) by simp
  qed
  moreover have "core_closeSignalClosed core' \<longrightarrow> protoConnectionMap core' = None"
    using m(3) assms(4,5) by (auto simp: map_delete_def)
  ultimately show ?thesis unfolding core_ok_def by blast
qed

lemma core_ok_set: "core_ok core \<Longrightarrow> pc_key p = pc_key (pconns core ! j) \<Longrightarrow> core_ok (core_set j p core)"
  by (erule core_ok_same [where k = "[]"])
    (cases "j < length (pconns core)"; auto simp: core_set_def nth_list_update list_update_beyond)+

lemma core_ok_delete: "core_ok core \<Longrightarrow> core_ok (core\<lparr> protoConnectionMap := map_delete k (protoConnectionMap core) \<rparr>)"
  by (erule core_ok_same [where k = k]) auto

lemma core_set_simps [simp]:
  "protoConnectionMap (core_set j p core) = protoConnectionMap core" "length (pconns (core_set j p core)) = length (pconns core)"
  "j < length (pconns core) \<Longrightarrow> pconns (core_set j p core) ! j = p" "j \<noteq> j' \<Longrightarrow> pconns (core_set j' p core) ! j = pconns core ! j"
  "core_closeSignalClosed (core_set j p core) = core_closeSignalClosed core" "core_config (core_set j p core) = core_config core"
  by (simp_all add: core_set_def)

lemma new_pconn_cases:
  assumes "new_pconn socket_ok perm rp ky server saddr laddr core = Return (r, core')"
  shows "(r = None \<and> core' = core) \<or> (\<exists>kvs p. r = Some (length (pconns core)) \<and> protoConnectionMap core = Some kvs
     \<and> core' = core\<lparr> pconns := pconns core @ [p], protoConnectionMap := Some (AList.update ky (length (pconns core)) kvs) \<rparr>
     \<and> pc_key p = ky \<and> \<not> pc_isClosed p)"
  using assms by (auto simp: new_pconn_def map_put_def newPcpProtocolConnection_def go_simps split: option.splits if_splits)

lemma core_ok_new:
  assumes "core_ok core" "new_pconn socket_ok perm rp ky server saddr laddr core = Return (r, core')"
  shows "core_ok core' \<and> (\<forall>j. r = Some j \<longrightarrow> j < length (pconns core') \<and> pc_key (pconns core' ! j) = ky
     \<and> \<not> pc_isClosed (pconns core' ! j) \<and> map_get (protoConnectionMap core') ky = Some j)"
  using new_pconn_cases [OF assms(2)]
proof
  assume "\<exists>kvs p. r = Some (length (pconns core)) \<and> protoConnectionMap core = Some kvs
     \<and> core' = core\<lparr> pconns := pconns core @ [p], protoConnectionMap := Some (AList.update ky (length (pconns core)) kvs) \<rparr>
     \<and> pc_key p = ky \<and> \<not> pc_isClosed p"
  then obtain kvs p where c: "r = Some (length (pconns core))" "protoConnectionMap core = Some kvs"
    "core' = core\<lparr> pconns := pconns core @ [p], protoConnectionMap := Some (AList.update ky (length (pconns core)) kvs) \<rparr>"
    "pc_key p = ky" "\<not> pc_isClosed p" by blast
  have u: "(k, j) \<in> set (AList.update ky n kvs) \<Longrightarrow> (k, j) \<in> set kvs \<or> (k, j) = (ky, n)" for k j n
    by (induction kvs) (auto split: if_splits)
  have "core_ok core'"
    using assms(1) c u distinct_update by (fastforce simp: core_ok_def nth_append)
  then show ?thesis using c by (simp add: nth_append map_get_def update_conv)
qed (use assms(1) in auto)

lemma core_ok_client:
  assumes "core_ok core" "client_pconn socket_ok perm rp ky saddr laddr core = Return (r, core')"
  shows "core_ok core' \<and> (\<forall>j. r = Some j \<longrightarrow> j < length (pconns core') \<and> pc_key (pconns core' ! j) = ky
     \<and> \<not> pc_isClosed (pconns core' ! j) \<and> map_get (protoConnectionMap core') ky = Some j)"
proof (cases "map_get (protoConnectionMap core) ky")
  case None
  then show ?thesis using assms core_ok_new [OF assms(1)] by (simp add: client_pconn_def)
next
  case (Some j)
  then have "(ky, j) \<in> set (entries (protoConnectionMap core))" by (simp add: entries_get map_of_SomeD)
  then have v: "j < length (pconns core) \<and> pc_key (pconns core ! j) = ky" using assms(1) by (auto simp: core_ok_def)
  show ?thesis
  proof (cases "pc_isClosed (pconns core ! j)")
    case True
    then show ?thesis
      using assms(2) Some core_ok_new [OF core_ok_delete [OF assms(1), of ky]] by (simp add: client_pconn_def)
  next
    case False
    then have "r = Some j \<and> core' = core" using assms(2) Some by (simp add: client_pconn_def)
    then show ?thesis using assms(1) v Some False by simp
  qed
qed

section \<open>The key of a protocol connection never changes\<close>

lemma same_key_simps [simp]:
  "pc_key (pc_set i c p) = pc_key p" "pc_key (pc_input i q p) = pc_key p" "pc_key (svc_input i q p) = pc_key p"
  "pc_isClosed (pc_input i q p) = pc_isClosed p"
  by (simp_all add: pc_set_def pc_input_def svc_input_def)

lemma dial_start_key: "dial_start isn rp now filter_ok sp cfg p = Return (r, p') \<Longrightarrow>
    pc_key p' = pc_key p \<and> pc_isClosed p' = pc_isClosed p \<and> (\<forall>i. r = Some i \<longrightarrow> i = length (pc_objs p)) \<and> length (pc_objs p') = Suc (length (pc_objs p))"
  by (auto simp: dial_start_def Let_def go_simps split: prod.splits sum.splits if_splits)

lemma dial_turn_key: "dial_turn ev i p = Return (r, p') \<Longrightarrow> pc_key p' = pc_key p"
  by (auto simp: dial_turn_def Let_def go_simps split: dial_event.splits option.splits if_splits)

lemma frame_key: "pc_handleIncomingPackets fuel buffer rd p = Some (Return (r, p')) \<Longrightarrow> pc_key p' = pc_key p"
proof -
  have temp: "client_temp fuel k frame n p = Some (Return (r, p')) \<Longrightarrow> pc_key p' = pc_key p" for k frame n
    by (auto simp: client_temp_def split: option.splits if_splits go.splits prod.splits)
  have disp: "client_dispatch fuel frame n p = Some (Return (r, p')) \<Longrightarrow> pc_key p' = pc_key p" for frame n
    using temp by (auto simp: client_dispatch_def Let_def split: option.splits if_splits go.splits prod.splits)
  have srv: "server_dispatch q (p\<lparr> pc_rpool := x \<rparr>) = Return (r, p') \<Longrightarrow> pc_key p' = pc_key p" for q x
    by (auto simp: server_dispatch_def Let_def split: option.splits if_splits)
  show "pc_handleIncomingPackets fuel buffer rd p = Some (Return (r, p')) \<Longrightarrow> pc_key p' = pc_key p"
    using disp srv
    by (auto simp: pc_handleIncomingPackets_def clientProcessingIncomingPacket_def serverProcessingIncomingPacket_def
        split: option.splits if_splits go.splits prod.splits sum.splits bool.splits)
qed

lemma await_key: "await_closes is p = Return p' \<Longrightarrow> pc_key p' = pc_key p"
  by (induction "is" arbitrary: p) (auto simp: go_simps)

lemma services_key: "close_services js p = Return p' \<Longrightarrow> pc_key p' = pc_key p"
  by (induction js arbitrary: p) (auto simp: go_simps)

lemma begin_key: "pc_key (begin_closes is p) = pc_key p"
  by (induction "is" arbitrary: p) (simp_all add: begin_closes_def)

lemma close_key: "pc_Close p = Return p' \<Longrightarrow> pc_key p' = pc_key p"
  by (auto simp: pc_Close_def pc_Close_begin_def Let_def go_simps begin_key split: if_splits
      dest!: await_key services_key)

lemma conn_end_key: "pc_handleCloseConnection ev p = Return (stop, p') \<Longrightarrow> pc_key p' = pc_key p"
  by (auto simp: pc_handleCloseConnection_def Let_def go_simps split: pc_close_event.splits option.splits prod.splits if_splits)

lemma pc_step_key: "pc_step p p' \<Longrightarrow> pc_key p' = pc_key p"
proof (induction rule: pc_step.induct)
  case (timer p p')
  then show ?case by (auto simp: emptyMapTimer_fired_def Let_def split: option.splits if_splits dest!: close_key)
qed (auto dest: dial_start_key dial_turn_key frame_key conn_end_key close_key)

section \<open>The invariant\<close>

lemma core_ok_begin:
  assumes "core_ok core" "DialPcp_begin a localIP serverIP serverPort cfg core = Return (r, core')"
  shows "core_ok core'"
proof -
  have ok: "core_ok (core_set j p core1)" "core_ok ((core_set j p core1)\<lparr> protoConnectionMap := map_delete ky' (protoConnectionMap core1) \<rparr>)"
    if "client_pconn s pm rp ky sa la core = Return (Some j, core1)" "dial_start isn rp2 now fo sp cfg (pconns core1 ! j) = Return (d, p)"
    for s pm rp ky sa la j core1 isn rp2 now fo sp d p ky'
  proof -
    show "core_ok (core_set j p core1)"
      using core_ok_client [OF assms(1) that(1)] dial_start_key [OF that(2)] by (intro core_ok_set) simp_all
    from core_ok_delete [OF this, of ky']
    show "core_ok ((core_set j p core1)\<lparr> protoConnectionMap := map_delete ky' (protoConnectionMap core1) \<rparr>)" by simp
  qed
  show ?thesis
    using assms(2) assms(1)
    by (auto simp: DialPcp_begin_def Let_def go_simps split: option.splits sum.splits if_splits
        dest: core_ok_client [OF assms(1)]) (erule (1) ok)+
qed

lemma core_ok_listen:
  assumes "core_ok core" "ListenPcp ip socket_ok perm rp filter_ok prt cfg core = Return (r, core')"
  shows "core_ok core'"
proof -
  show ?thesis
  proof (cases ip)
    case (Some x)
    define first where "first = (case map_get (protoConnectionMap core) (to4_string x) of Some j \<Rightarrow> Return (Some j, core)
      | None \<Rightarrow> new_pconn socket_ok perm rp (to4_string x) True (IPAddr x) NilAddr core)"
    obtain d core1 where f: "first = Return (d, core1)"
      using assms(2) Some by (cases first) (auto simp: ListenPcp_def Let_def first_def [symmetric])
    have ok: "core_ok core1"
      using f core_ok_new [OF assms(1)] assms(1) by (auto simp: first_def split: option.splits)
    show ?thesis
      using assms(2) Some f ok
      by (auto simp: ListenPcp_def Let_def first_def [symmetric] go_simps split: option.splits if_splits intro!: core_ok_set)
  qed (use assms in \<open>simp add: ListenPcp_def\<close>)
qed

lemma core_ok_close:
  assumes "core_ok core" "core_Close rs_ok core = Return (r, core')"
  shows "core_ok core'"
proof -
  have "close_pconns js core = Return core1 \<Longrightarrow> core_ok core \<Longrightarrow> core_ok core1" for js core core1
    by (induction js arbitrary: core) (auto simp: go_simps intro: core_ok_set dest: close_key)
  then show ?thesis using assms by (auto simp: core_Close_def Let_def go_simps core_ok_def split: if_splits)
qed

lemma core_ok_step:
  assumes "core_ok core" "core_step core core'"
  shows "core_ok core'"
  using assms(2)
proof cases
  case (dial_wait j ev i r)
  obtain x where "dial_turn ev i (pconns core ! j) = Return x"
    using dial_wait(2) by (cases "dial_turn ev i (pconns core ! j)") (simp_all add: DialPcp_turn_def)
  then obtain d p where "dial_turn ev i (pconns core ! j) = Return (d, p)"
    "core' = core_set j p core \<or> (\<exists>k. core' = (core_set j p core)\<lparr> protoConnectionMap := map_delete k (protoConnectionMap core) \<rparr>)"
    using dial_wait(2) by (cases x; cases "fst x") (auto simp: DialPcp_turn_def Let_def)
  moreover from this have "core_ok (core_set j p core)" using assms(1) dial_turn_key by (intro core_ok_set)
  ultimately show ?thesis using core_ok_delete [of "core_set j p core"] by auto
next
  case (pconn_turn j p)
  then show ?thesis using assms(1) core_ok_set pc_step_key by blast
next
  case (pconn_closed j)
  then show ?thesis using assms(1) core_ok_delete by (auto simp: handleClosePConnConnection_def Let_def split: option.splits)
qed (use assms(1) in \<open>auto intro: core_ok_begin core_ok_listen core_ok_close\<close>)

interpretation corerun: machine core_step core_ok
  by unfold_locales (rule core_ok_step)

lemma reachable_core_ok:
  assumes "NewPcpCore cfg rscore = Return core0" "core_step\<^sup>*\<^sup>* core0 core"
  shows "core_ok core"
proof -
  have "core_ok core0" using assms(1) by (auto simp: NewPcpCore_def core_ok_def split: if_splits)
  then show ?thesis by (rule corerun.run_kept [OF assms(2)])
qed

lemma map_values_entries: "map_values m = map snd (entries m)"
  by (cases m) (simp_all add: map_values_def)

lemma close_pconns_others: "close_pconns js core = Return core' \<Longrightarrow> j \<notin> set js \<Longrightarrow> pconns core' ! j = pconns core ! j"
  by (induction js arbitrary: core) (auto simp: go_simps)

section \<open>Choosing the local address\<close>

definition usable :: "iface list \<Rightarrow> bytes set" where
  \<comment> \<open>the IPv4 addresses of interfaces that are up and not loopback\<close>
  "usable ifs = {ip. \<exists>i addrs. i \<in> set ifs \<and> iface_up i \<and> \<not> iface_loopback i \<and> iface_addrs i = Some addrs
     \<and> Some ip \<in> set addrs \<and> To4 ip \<noteq> None}"

definition same24 :: "bytes \<Rightarrow> bytes \<Rightarrow> bool" where
  "same24 a b \<longleftrightarrow> (\<exists>x y. To4 a = Some x \<and> To4 b = Some y \<and> take 3 x = take 3 y)"

lemma scan_addrs_spec:
  "case scan_addrs ok addrs of Some ip \<Rightarrow> Some ip \<in> set addrs \<and> To4 ip \<noteq> None \<and> ok ip
     | None \<Rightarrow> \<forall>ip. Some ip \<in> set addrs \<longrightarrow> To4 ip \<noteq> None \<longrightarrow> \<not> ok ip"
  by (induction ok addrs rule: scan_addrs.induct) (auto split: option.splits)

lemma usable_Cons: "usable (i # rest) = (if iface_up i \<and> \<not> iface_loopback i
    then {ip. \<exists>addrs. iface_addrs i = Some addrs \<and> Some ip \<in> set addrs \<and> To4 ip \<noteq> None} else {}) \<union> usable rest"
  by (auto simp: usable_def)

lemma scan_ifaces_spec:
  "case scan_ifaces ok ifs of Some ip \<Rightarrow> ip \<in> usable ifs \<and> ok ip | None \<Rightarrow> \<forall>ip \<in> usable ifs. \<not> ok ip"
proof (induction ok ifs rule: scan_ifaces.induct)
  case (2 ok i rest)
  show ?case
  proof (cases "iface_up i \<and> \<not> iface_loopback i")
    case True
    show ?thesis
    proof (cases "iface_addrs i")
      case (Some addrs)
      then show ?thesis
        using 2(3) True scan_addrs_spec [where ok = ok and addrs = addrs]
        by (cases "scan_addrs ok addrs") (auto simp: usable_Cons split: option.splits)
    qed (use 2(2) True in \<open>auto simp: usable_Cons split: option.splits\<close>)
  qed (use 2(1) in \<open>auto simp: usable_Cons split: option.splits\<close>)
qed (simp add: usable_def)

lemma contains24_same: "To4 ip \<noteq> None \<Longrightarrow> contains24 ip t \<or> contains24 t ip \<longleftrightarrow> same24 ip t"
proof -
  have l: "To4 x = Some y \<Longrightarrow> length y = 4" "length x = 4 \<Longrightarrow> To4 x = Some x" for x y
    by (auto simp: To4_def split: if_splits)
  show "To4 ip \<noteq> None \<Longrightarrow> contains24 ip t \<or> contains24 t ip \<longleftrightarrow> same24 ip t"
    using l [of ip] l [of t] by (cases "To4 t") (auto simp: contains24_def same24_def Let_def)
qed

section \<open>Samples\<close>

definition sample_answers :: dial_answers where
  "sample_answers = \<lparr> resolved = (\<lambda>s. if s = ''a'' then Some [10, 0, 0, 1] else Some [10, 0, 0, 2]), parsed = (\<lambda>_. None),
     interfaces = None, socketOk = True, portPerm = [0..<28232], isnChosen = 7, poolAnswers = sample_rp, clockNow = 0, filterOk = True \<rparr>"

definition sample_core :: PcpCore where
  "sample_core = (case NewPcpCore DefaultPcpCoreConfig True of Return c \<Rightarrow> c | _ \<Rightarrow> undefined)"

definition dialling_core :: PcpCore where
  "dialling_core = (case DialPcp_begin sample_answers ''a'' ''b'' 8901 DefaultConnectionConfig sample_core of
     Return (r, core) \<Rightarrow> core | _ \<Rightarrow> sample_core)"

lemma sample_core: "NewPcpCore DefaultPcpCoreConfig True = Return sample_core"
  by (simp add: sample_core_def NewPcpCore_def)

lemma dialling_core:
  "DialPcp_begin sample_answers ''a'' ''b'' 8901 DefaultConnectionConfig sample_core = Return (Inr (0, 0), dialling_core)"
  "map_get (protoConnectionMap dialling_core) (client_key [10, 0, 0, 2] [10, 0, 0, 1]) = Some 0"
  "protoConnectionMap dialling_core = Some [(client_key [10, 0, 0, 2] [10, 0, 0, 1], 0)]" "core_hasRsCore dialling_core"
  "\<not> core_closeSignalClosed dialling_core"
  "\<exists>x pool. allocatePort 0 (localPortPool (pconns dialling_core ! 0)) = (Inr x, pool)"
  "\<exists>ts. pc_tempConnectionMap (pconns dialling_core ! 0) = Some ts" "\<not> pc_isClosed (pconns dialling_core ! 0)"
proof -
  define k where "k = client_key [10, 0, 0, 2] [10, 0, 0, 1]"
  define p where "p = the (newPcpProtocolConnection True [0..<28232] sample_rp k False 6 (IPAddr [10, 0, 0, 2]) (IPAddr [10, 0, 0, 1])
     DefaultPcpProtocolConnConfig)"
  define core1 where "core1 = sample_core\<lparr> pconns := [p], protoConnectionMap := Some [(k, 0)] \<rparr>"
  have sc: "pconns sample_core = []" "protoConnectionMap sample_core = Some []" "core_hasRsCore sample_core"
    "\<not> core_closeSignalClosed sample_core" "core_config sample_core = DefaultPcpCoreConfig"
    by (simp_all add: sample_core_def NewPcpCore_def)
  have c: "client_pconn True [0..<28232] sample_rp k (IPAddr [10, 0, 0, 2]) (IPAddr [10, 0, 0, 1]) sample_core = Return (Some 0, core1)"
    by (simp add: client_pconn_def new_pconn_def map_get_def map_put_def sc core1_def p_def DefaultPcpCoreConfig_def
        newPcpProtocolConnection_def)
  obtain pool pool2 where al: "allocatePort 0 (localPortPool p) = (Inr 32768, pool)" "allocatePort 0 pool = (Inr 32769, pool2)"
    by (simp add: p_def newPcpProtocolConnection_def newPortPool_def allocatePort_def Let_def)
  have "pc_tempConnectionMap p = Some []" "pc_objs p = []" "\<not> pc_isClosed p" by (simp_all add: p_def newPcpProtocolConnection_def)
  then obtain p1 where d: "dial_start 7 sample_rp 0 True 8901 DefaultConnectionConfig p = Return (Some 0, p1)"
    "localPortPool p1 = pool" "pc_tempConnectionMap p1 \<noteq> None" "\<not> pc_isClosed p1"
    using dial_sends_syn [OF al(1), of "[]" 7 sample_rp 8901 DefaultConnectionConfig] by auto
  have b: "DialPcp_begin sample_answers ''a'' ''b'' 8901 DefaultConnectionConfig sample_core = Return (Inr (0, 0), core_set 0 p1 core1)"
    using c d(1) by (simp add: DialPcp_begin_def sample_answers_def k_def [symmetric] core1_def)
  then have dc: "dialling_core = core_set 0 p1 core1" by (simp add: dialling_core_def)
  show "DialPcp_begin sample_answers ''a'' ''b'' 8901 DefaultConnectionConfig sample_core = Return (Inr (0, 0), dialling_core)"
    using b dc by simp
  show "map_get (protoConnectionMap dialling_core) (client_key [10, 0, 0, 2] [10, 0, 0, 1]) = Some 0"
    "protoConnectionMap dialling_core = Some [(client_key [10, 0, 0, 2] [10, 0, 0, 1], 0)]" "core_hasRsCore dialling_core"
    "\<not> core_closeSignalClosed dialling_core"
    "\<exists>x pool. allocatePort 0 (localPortPool (pconns dialling_core ! 0)) = (Inr x, pool)"
    "\<exists>ts. pc_tempConnectionMap (pconns dialling_core ! 0) = Some ts" "\<not> pc_isClosed (pconns dialling_core ! 0)"
    using sc al(2) d(2-4) by (simp_all add: dc core1_def k_def map_get_def core_set_def)
qed

lemma second_dial:
  "\<exists>r core2. DialPcp_begin sample_answers ''a'' ''b'' 80 DefaultConnectionConfig dialling_core = Return (r, core2)"
proof -
  let ?p = "pconns dialling_core ! 0"
  obtain x pool ts where "allocatePort 0 (localPortPool ?p) = (Inr x, pool)" "pc_tempConnectionMap ?p = Some ts"
    using dialling_core(6,7) by blast
  then obtain d p where "dial_start 7 sample_rp 0 True 80 DefaultConnectionConfig ?p = Return (d, p)"
    using dial_sends_syn [of 0 ?p x pool ts 7 sample_rp 80 DefaultConnectionConfig] by blast
  then show ?thesis
    using dialling_core(2,8)
    by (cases d) (auto simp: DialPcp_begin_def sample_answers_def client_pconn_def Let_def)
qed

lemma dialling_core_steps: "core_step\<^sup>*\<^sup>* sample_core dialling_core"
  using core_step.dial_begin [OF dialling_core(1)] by blast

section \<open>Properties\<close>

text \<open>
  The local address is that of an interface that is up and not loopback, and it lies in the
  target's /24 network whenever some such address does; the search fails only when there is none.
\<close>

theorem local_ip_prefers_subnet:
  "case findLocalIP (Some t) (Some ifs) of
     Inl e \<Rightarrow> e = NoLocalIP \<and> usable ifs = {}
   | Inr text \<Rightarrow> \<exists>ip \<in> usable ifs. text = ip_string ip \<and> ((\<exists>ip' \<in> usable ifs. same24 ip' t) \<longrightarrow> same24 ip t)"
proof -
  let ?ok = "\<lambda>ip. contains24 ip t \<or> contains24 t ip"
  have n: "ip \<in> usable ifs \<Longrightarrow> ?ok ip \<longleftrightarrow> same24 ip t" for ip
    by (rule contains24_same) (auto simp: usable_def)
  show ?thesis
  proof (cases "scan_ifaces ?ok ifs")
    case (Some ip)
    then show ?thesis using scan_ifaces_spec [where ok = ?ok and ifs = ifs] n [of ip] by (auto simp: findLocalIP_def)
  next
    case None
    then have "\<forall>ip \<in> usable ifs. \<not> same24 ip t" using scan_ifaces_spec [where ok = ?ok and ifs = ifs] n by auto
    then show ?thesis
      using None scan_ifaces_spec [where ok = "\<lambda>_. True" and ifs = ifs]
      by (auto simp: findLocalIP_def split: option.splits)
  qed
qed

theorem local_ip_prefers_subnet_witness:
  "findLocalIP (Some [10, 0, 0, 9])
     (Some [\<lparr> iface_up = True, iface_loopback = True, iface_addrs = Some [Some [10, 0, 0, 8]] \<rparr>,
            \<lparr> iface_up = True, iface_loopback = False, iface_addrs = Some [None, Some [192, 168, 1, 2], Some [10, 0, 0, 5]] \<rparr>])
   = Inr (ip_string [10, 0, 0, 5])"
  using local_ip_prefers_subnet [where t = "[10, 0, 0, 9]" and
      ifs = "[\<lparr> iface_up = True, iface_loopback = True, iface_addrs = Some [Some [10, 0, 0, 8]] \<rparr>,
        \<lparr> iface_up = True, iface_loopback = False, iface_addrs = Some [None, Some [192, 168, 1, 2], Some [10, 0, 0, 5]] \<rparr>]"]
  by (auto simp: findLocalIP_def usable_def same24_def contains24_def To4_def)

text \<open>
  C10. In every run of a core, no two entries of its map have the same key or the same protocol
  connection, and each entry's key is its protocol connection's own.
\<close>

theorem core_map_consistent:
  assumes "NewPcpCore cfg rscore = Return core0" "core_step\<^sup>*\<^sup>* core0 core"
  shows "distinct (map fst (entries (protoConnectionMap core))) \<and> distinct (map snd (entries (protoConnectionMap core)))
    \<and> (\<forall>(k, j) \<in> set (entries (protoConnectionMap core)). j < length (pconns core) \<and> pc_key (pconns core ! j) = k)"
proof -
  let ?m = "entries (protoConnectionMap core)"
  have ok: "core_ok core" by (rule reachable_core_ok [OF assms])
  then have k: "distinct (map fst ?m)" "\<forall>(k, j) \<in> set ?m. j < length (pconns core) \<and> pc_key (pconns core ! j) = k"
    by (auto simp: core_ok_def)
  then have "fst x = pc_key (pconns core ! snd x)" if "x \<in> set ?m" for x using that by fastforce
  then have "inj_on snd (set ?m)" by (intro inj_onI prod_eqI) metis+
  moreover have "distinct ?m" using k(1) distinct_map by blast
  ultimately show ?thesis using k distinct_map by blast
qed

theorem core_map_consistent_witness:
  "distinct (map snd (entries (protoConnectionMap dialling_core)))"
  using core_map_consistent [OF sample_core dialling_core_steps] by blast





text \<open>
  C39. A dial that times out makes the core forget the protocol connection it used, although others may
  be using it: it leaves the map unclosed, with all its open connections, and the core's own
  \<open>Close\<close> then closes none of them.
\<close>

theorem failed_dial_forgets_connections:
  assumes "NewPcpCore cfg rscore = Return core0" "core_step\<^sup>*\<^sup>* core0 core"
    and "map_get (protoConnectionMap core) k = Some j"
    and "DialPcp_turn DialSignalFailed k j i core = Return (r, core1)" "core_Close rs_ok core1 = Return (e, core2)"
  shows "r = Some (Inl DialError) \<and> map_get (protoConnectionMap core1) k = None \<and> pconns core2 ! j = pconns core1 ! j
    \<and> (\<forall>i'. i' \<noteq> i \<longrightarrow> pc_conn (pconns core2 ! j) i' = pc_conn (pconns core ! j) i')
    \<and> pc_isClosed (pconns core2 ! j) = pc_isClosed (pconns core ! j)"
proof -
  have ok: "core_ok core" by (rule reachable_core_ok [OF assms(1,2)])
  have "(k, j) \<in> set (entries (protoConnectionMap core))" using assms(3) by (simp add: entries_get map_of_SomeD)
  then have j: "j < length (pconns core)" "pc_key (pconns core ! j) = k" using ok by (auto simp: core_ok_def)
  obtain p where p: "dial_turn DialSignalFailed i (pconns core ! j) = Return (DialFailed, p)"
    by (simp add: dial_turn_def Let_def)
  have r: "r = Some (Inl DialError)" "core1 = (core_set j p core)\<lparr> protoConnectionMap := map_delete k (protoConnectionMap core) \<rparr>"
    using assms(4) p by (simp_all add: DialPcp_turn_def Let_def)
  have none: "map_get (protoConnectionMap core1) k = None"
    by (simp add: r(2) entries_get delete_conv)
  have core1: "core_ok core1"
    unfolding r(2) using core_ok_delete [OF core_ok_set [OF ok dial_turn_key [OF p]], of k] by simp
  have key: "pc_key (pconns core1 ! j) = k" using j dial_turn_key [OF p] by (simp add: r(2))
  have "j \<notin> set (map_values (protoConnectionMap core1))"
  proof
    assume "j \<in> set (map_values (protoConnectionMap core1))"
    then obtain k' where "(k', j) \<in> set (entries (protoConnectionMap core1))" by (auto simp: map_values_entries)
    moreover from this have "k' = k" using core1 key by (auto simp: core_ok_def)
    ultimately show False using none by (force simp: entries_get map_of_eq_None_iff)
  qed
  then have "pconns core2 ! j = pconns core1 ! j"
    using assms(5) close_pconns_others by (auto simp: core_Close_def Let_def go_simps split: if_splits)
  moreover have "pc_conn p i' = pc_conn (pconns core ! j) i'" if "i' \<noteq> i" for i'
    using p that by (auto simp: dial_turn_def Let_def pc_conn_def pc_set_def)
  moreover have "pc_isClosed p = pc_isClosed (pconns core ! j)"
    using p by (auto simp: dial_turn_def Let_def pc_set_def)
  ultimately show ?thesis using r none j(1) by simp
qed

theorem failed_dial_forgets_connections_witness:
  "\<exists>r core1 e core2. DialPcp_turn DialSignalFailed (client_key [10, 0, 0, 2] [10, 0, 0, 1]) 0 0 dialling_core = Return (r, core1)
    \<and> core_Close True core1 = Return (e, core2) \<and> map_get (protoConnectionMap core1) (client_key [10, 0, 0, 2] [10, 0, 0, 1]) = None
    \<and> pconns core2 ! 0 = pconns core1 ! 0"
proof -
  obtain p where p: "dial_turn DialSignalFailed 0 (pconns dialling_core ! 0) = Return (DialFailed, p)"
    by (simp add: dial_turn_def Let_def)
  define core1 where "core1 = (core_set 0 p dialling_core)\<lparr> protoConnectionMap := Some [] \<rparr>"
  have t: "DialPcp_turn DialSignalFailed (client_key [10, 0, 0, 2] [10, 0, 0, 1]) 0 0 dialling_core = Return (Some (Inl DialError), core1)"
    using p dialling_core(3) by (simp add: DialPcp_turn_def Let_def core1_def map_delete_def)
  have "\<not> core_closeSignalClosed core1" "map_values (protoConnectionMap core1) = []"
    using dialling_core(5) by (simp_all add: core1_def map_values_def)
  then obtain e core2 where c: "core_Close True core1 = Return (e, core2)" by (simp add: core_Close_def Let_def)
  show ?thesis
    using failed_dial_forgets_connections [OF sample_core dialling_core_steps dialling_core(2) t c]
    by (intro exI conjI) (rule t, rule c, simp_all)
qed


end
