(* ===== verification/Config.thy ===== *)
theory Config
  imports Core
begin

text \<open>
  \<open>config/config.go\<close>: the configuration file over the defaults. Reading the file and parsing
  YAML are other code: the answer of \<open>os.ReadFile\<close> and \<open>yaml.Unmarshal\<close> are arguments. A pointer
  field of the partial configurations is an option. The global \<open>counter\<close> is threaded through.
\<close>

section \<open>The code\<close>

record PartialPcpCoreConfig =
  yaml_ProtocolID :: "int option"
  yaml_PayloadPoolSize :: "int option"
  yaml_PreferredMSS :: "int option"
  yaml_Debug :: "bool option"
  yaml_PoolDebug :: "bool option"
  yaml_ProcessTimeThreshold :: "int option"

record PartialPcpProtocolConnConfig =
  yaml_IptableRuleDelay :: "int option"
  yaml_PacketLostSim :: "bool option"
  yaml_PConnTimeout :: "int option"
  yaml_ClientPortUpper :: "int option"
  yaml_ClientPortLower :: "int option"
  yaml_VerifyChecksum :: "bool option"
  yaml_PconnOutputQueue :: "int option"
  yaml_DisableResendBackoff :: "bool option"

record PartialConnectionConfig =
  yaml_WindowScale :: "int option"
  yaml_SackPermitSupport :: "bool option"
  yaml_SackOptionSupport :: "bool option"
  yaml_RetransmissionEnabled :: "bool option"
  yaml_IdleTimeout :: "int option"
  yaml_KeepAliveEnabled :: "bool option"
  yaml_KeepaliveInterval :: "int option"
  yaml_MaxKeepaliveAttempts :: "int option"
  yaml_ResendInterval :: "int option"
  yaml_MaxResendCount :: "int option"
  yaml_WindowSizeWithScale :: "int option"
  yaml_ConnSignalRetryInterval :: "int option"
  yaml_ConnSignalRetry :: "int option"
  yaml_ConnectionInputQueue :: "int option"
  yaml_ShowStatistics :: "bool option"

record PartialConfig =
  yaml_CoreConfig :: "PartialPcpCoreConfig option"
  yaml_PcpConfig :: "PartialPcpProtocolConnConfig option"
  yaml_ConnConfig :: "PartialConnectionConfig option"

definition set_if :: "'a option \<Rightarrow> ('a \<Rightarrow> 'c \<Rightarrow> 'c) \<Rightarrow> int \<times> 'c \<Rightarrow> int \<times> 'c" where
  \<comment> \<open>\<open>if partial.F != nil { counter++; defaultConfig.F = *partial.F }\<close>\<close>
  "set_if v upd = (\<lambda>(counter, c). case v of None \<Rightarrow> (counter, c) | Some x \<Rightarrow> (counter + 1, upd x c))"

definition set_uncounted :: "'a option \<Rightarrow> ('a \<Rightarrow> 'c \<Rightarrow> 'c) \<Rightarrow> int \<times> 'c \<Rightarrow> int \<times> 'c" where
  \<comment> \<open>the same without the count\<close>
  "set_uncounted v upd = (\<lambda>(counter, c). case v of None \<Rightarrow> (counter, c) | Some x \<Rightarrow> (counter, upd x c))"

definition mergePcpCoreConfig :: "PartialPcpCoreConfig option \<Rightarrow> int \<times> PcpCoreConfig \<Rightarrow> int \<times> PcpCoreConfig" where
  "mergePcpCoreConfig partial0 s =
     (case partial0 of None \<Rightarrow> s
      | Some partial \<Rightarrow>
          let s1 = set_if (yaml_ProtocolID partial) (\<lambda>v c. c\<lparr> ProtocolID := word_of_int v \<rparr>) s;
              s2 = set_if (yaml_PayloadPoolSize partial) (\<lambda>v c. c\<lparr> PayloadPoolSize := v \<rparr>) s1;
              s3 = set_if (yaml_PreferredMSS partial) (\<lambda>v c. c\<lparr> core_PreferredMSS := v \<rparr>) s2;
              s4 = set_if (yaml_Debug partial) (\<lambda>v c. c\<lparr> core_Debug := v \<rparr>) s3;
              s5 = set_if (yaml_PoolDebug partial) (\<lambda>v c. c\<lparr> PoolDebug := v \<rparr>) s4;
              s6 = set_if (yaml_ProcessTimeThreshold partial) (\<lambda>v c. c\<lparr> ProcessTimeThreshold := v \<rparr>) s5
          in s6)"

definition mergePcpProtocolConnConfig :: "PartialPcpProtocolConnConfig option \<Rightarrow> int \<times> PcpProtocolConnConfig \<Rightarrow> int \<times> PcpProtocolConnConfig" where
  "mergePcpProtocolConnConfig partial0 s =
     (case partial0 of None \<Rightarrow> s
      | Some partial \<Rightarrow>
          let s1 = set_if (yaml_IptableRuleDelay partial) (\<lambda>v c. c\<lparr> IptableRuleDaley := v \<rparr>) s;
              s2 = set_if (yaml_PacketLostSim partial) (\<lambda>v c. c\<lparr> PacketLostSimulation := v \<rparr>) s1;
              s3 = set_if (yaml_PConnTimeout partial) (\<lambda>v c. c\<lparr> PConnTimeout := v \<rparr>) s2;
              s4 = set_if (yaml_ClientPortUpper partial) (\<lambda>v c. c\<lparr> ClientPortUpper := v \<rparr>) s3;
              s5 = set_if (yaml_ClientPortLower partial) (\<lambda>v c. c\<lparr> ClientPortLower := v \<rparr>) s4;
              s6 = set_uncounted (yaml_VerifyChecksum partial) (\<lambda>v c. c\<lparr> VerifyChecksumOn := v \<rparr>) s5;
              s7 = set_if (yaml_PconnOutputQueue partial) (\<lambda>v c. c\<lparr> PConnOutputQueue := v \<rparr>) s6;
              s8 = set_if (yaml_DisableResendBackoff partial) (\<lambda>v c. c\<lparr> DisableResendBackoff := v \<rparr>) s7
          in s8)"

definition mergeConnectionConfig :: "PartialConnectionConfig option \<Rightarrow> int \<times> ConnectionConfig \<Rightarrow> int \<times> ConnectionConfig" where
  "mergeConnectionConfig partial0 s =
     (case partial0 of None \<Rightarrow> s
      | Some partial \<Rightarrow>
          let s1 = set_if (yaml_WindowScale partial) (\<lambda>v c. c\<lparr> WindowScale := v \<rparr>) s;
              s2 = set_if (yaml_SackPermitSupport partial) (\<lambda>v c. c\<lparr> SackPermitSupport := v \<rparr>) s1;
              s3 = set_if (yaml_SackOptionSupport partial) (\<lambda>v c. c\<lparr> SackOptionSupport := v \<rparr>) s2;
              s4 = set_if (yaml_RetransmissionEnabled partial) (\<lambda>v c. c\<lparr> RetransmissionEnabled := v \<rparr>) s3;
              s5 = set_if (yaml_IdleTimeout partial) (\<lambda>v c. c\<lparr> IdleTimeout := v \<rparr>) s4;
              s6 = set_if (yaml_KeepAliveEnabled partial) (\<lambda>v c. c\<lparr> KeepAliveEnabled := v \<rparr>) s5;
              s7 = set_if (yaml_KeepaliveInterval partial) (\<lambda>v c. c\<lparr> KeepaliveInterval := v \<rparr>) s6;
              s8 = set_if (yaml_MaxKeepaliveAttempts partial) (\<lambda>v c. c\<lparr> MaxKeepaliveAttempts := v \<rparr>) s7;
              s9 = set_if (yaml_ResendInterval partial) (\<lambda>v c. c\<lparr> ResendInterval := v \<rparr>) s8;
              s10 = set_if (yaml_MaxResendCount partial) (\<lambda>v c. c\<lparr> MaxResendCount := v \<rparr>) s9;
              s11 = set_if (yaml_WindowSizeWithScale partial) (\<lambda>v c. c\<lparr> WindowSizeWithScale := v \<rparr>) s10;
              s12 = set_if (yaml_ConnSignalRetryInterval partial) (\<lambda>v c. c\<lparr> ConnSignalRetryInterval := v \<rparr>) s11;
              s13 = set_if (yaml_ConnSignalRetry partial) (\<lambda>v c. c\<lparr> ConnSignalRetry := v \<rparr>) s12;
              s14 = set_if (yaml_ConnectionInputQueue partial) (\<lambda>v c. c\<lparr> ConnectionInputQueue := v \<rparr>) s13;
              s15 = set_if (yaml_ShowStatistics partial) (\<lambda>v c. c\<lparr> ShowStatistics := v \<rparr>) s14
          in s15)"

datatype 'd read_answer = FileMissing | ReadFailed | FileData 'd

datatype load_result = LoadFailed | Loaded PcpCoreConfig ConnectionConfig

definition LoadConfig :: "'d read_answer \<Rightarrow> ('d \<Rightarrow> PartialConfig option) \<Rightarrow> int \<Rightarrow> load_result \<times> int" where
  \<comment> \<open>the result and the counter\<close>
  "LoadConfig got yaml counter =
     (case got of
        FileMissing \<Rightarrow> (Loaded (DefaultPcpCoreConfig\<lparr> core_pconnConfig := DefaultPcpProtocolConnConfig \<rparr>) DefaultConnectionConfig, counter)
      | ReadFailed \<Rightarrow> (LoadFailed, counter)
      | FileData d \<Rightarrow>
          (case yaml d of None \<Rightarrow> (LoadFailed, counter)
          | Some partialCfg \<Rightarrow>
              let (counter1, coreConfig) = mergePcpCoreConfig (yaml_CoreConfig partialCfg) (counter, DefaultPcpCoreConfig);
                  (counter2, pcpConfig) = mergePcpProtocolConnConfig (yaml_PcpConfig partialCfg) (counter1, DefaultPcpProtocolConnConfig);
                  (counter3, connConfig) = mergeConnectionConfig (yaml_ConnConfig partialCfg) (counter2, DefaultConnectionConfig);
                  (pcpConfig1, connConfig1) =
                    (case Option.bind (yaml_CoreConfig partialCfg) yaml_PreferredMSS of
                       None \<Rightarrow> (pcpConfig, connConfig)
                     | Some n \<Rightarrow> (pcpConfig\<lparr> pconn_PreferredMSS := n \<rparr>, connConfig\<lparr> PreferredMSS := n \<rparr>))
              in (Loaded (coreConfig\<lparr> core_pconnConfig := pcpConfig1 \<rparr>) connConfig1, counter3)))"

section \<open>What merging does\<close>

definition given :: "'a option \<Rightarrow> 'a \<Rightarrow> 'a" where
  \<comment> \<open>the file's value, or else the default\<close>
  "given v d = (case v of None \<Rightarrow> d | Some x \<Rightarrow> x)"

definition count :: "'a option \<Rightarrow> int" where
  "count v = (case v of None \<Rightarrow> 0 | Some _ \<Rightarrow> 1)"

lemma core_steps:
  "set_if w (\<lambda>v c. c\<lparr> ProtocolID := word_of_int v \<rparr>) (n, c) = (n + count w, c\<lparr> ProtocolID := given (map_option word_of_int w) (ProtocolID c) \<rparr>)"
  "set_if v (\<lambda>v c. c\<lparr> PayloadPoolSize := v \<rparr>) (n, c) = (n + count v, c\<lparr> PayloadPoolSize := given v (PayloadPoolSize c) \<rparr>)"
  "set_if v (\<lambda>v c. c\<lparr> core_PreferredMSS := v \<rparr>) (n, c) = (n + count v, c\<lparr> core_PreferredMSS := given v (core_PreferredMSS c) \<rparr>)"
  "set_if b (\<lambda>v c. c\<lparr> core_Debug := v \<rparr>) (n, c) = (n + count b, c\<lparr> core_Debug := given b (core_Debug c) \<rparr>)"
  "set_if b (\<lambda>v c. c\<lparr> PoolDebug := v \<rparr>) (n, c) = (n + count b, c\<lparr> PoolDebug := given b (PoolDebug c) \<rparr>)"
  "set_if v (\<lambda>v c. c\<lparr> ProcessTimeThreshold := v \<rparr>) (n, c) = (n + count v, c\<lparr> ProcessTimeThreshold := given v (ProcessTimeThreshold c) \<rparr>)"
  by (simp_all add: set_if_def set_uncounted_def given_def count_def split: option.split)

lemma pconn_steps:
  "set_if v (\<lambda>v c. c\<lparr> IptableRuleDaley := v \<rparr>) (n, c) = (n + count v, c\<lparr> IptableRuleDaley := given v (IptableRuleDaley c) \<rparr>)"
  "set_if b (\<lambda>v c. c\<lparr> PacketLostSimulation := v \<rparr>) (n, c) = (n + count b, c\<lparr> PacketLostSimulation := given b (PacketLostSimulation c) \<rparr>)"
  "set_if v (\<lambda>v c. c\<lparr> PConnTimeout := v \<rparr>) (n, c) = (n + count v, c\<lparr> PConnTimeout := given v (PConnTimeout c) \<rparr>)"
  "set_if v (\<lambda>v c. c\<lparr> ClientPortUpper := v \<rparr>) (n, c) = (n + count v, c\<lparr> ClientPortUpper := given v (ClientPortUpper c) \<rparr>)"
  "set_if v (\<lambda>v c. c\<lparr> ClientPortLower := v \<rparr>) (n, c) = (n + count v, c\<lparr> ClientPortLower := given v (ClientPortLower c) \<rparr>)"
  "set_uncounted b (\<lambda>v c. c\<lparr> VerifyChecksumOn := v \<rparr>) (n, c) = (n, c\<lparr> VerifyChecksumOn := given b (VerifyChecksumOn c) \<rparr>)"
  "set_if v (\<lambda>v c. c\<lparr> PConnOutputQueue := v \<rparr>) (n, c) = (n + count v, c\<lparr> PConnOutputQueue := given v (PConnOutputQueue c) \<rparr>)"
  "set_if b (\<lambda>v c. c\<lparr> DisableResendBackoff := v \<rparr>) (n, c) = (n + count b, c\<lparr> DisableResendBackoff := given b (DisableResendBackoff c) \<rparr>)"
  by (simp_all add: set_if_def set_uncounted_def given_def count_def split: option.split)

lemma conn_steps:
  "set_if v (\<lambda>v c. c\<lparr> WindowScale := v \<rparr>) (n, c) = (n + count v, c\<lparr> WindowScale := given v (WindowScale c) \<rparr>)"
  "set_if b (\<lambda>v c. c\<lparr> SackPermitSupport := v \<rparr>) (n, c) = (n + count b, c\<lparr> SackPermitSupport := given b (SackPermitSupport c) \<rparr>)"
  "set_if b (\<lambda>v c. c\<lparr> SackOptionSupport := v \<rparr>) (n, c) = (n + count b, c\<lparr> SackOptionSupport := given b (SackOptionSupport c) \<rparr>)"
  "set_if b (\<lambda>v c. c\<lparr> RetransmissionEnabled := v \<rparr>) (n, c) = (n + count b, c\<lparr> RetransmissionEnabled := given b (RetransmissionEnabled c) \<rparr>)"
  "set_if v (\<lambda>v c. c\<lparr> IdleTimeout := v \<rparr>) (n, c) = (n + count v, c\<lparr> IdleTimeout := given v (IdleTimeout c) \<rparr>)"
  "set_if b (\<lambda>v c. c\<lparr> KeepAliveEnabled := v \<rparr>) (n, c) = (n + count b, c\<lparr> KeepAliveEnabled := given b (KeepAliveEnabled c) \<rparr>)"
  "set_if v (\<lambda>v c. c\<lparr> KeepaliveInterval := v \<rparr>) (n, c) = (n + count v, c\<lparr> KeepaliveInterval := given v (KeepaliveInterval c) \<rparr>)"
  "set_if v (\<lambda>v c. c\<lparr> MaxKeepaliveAttempts := v \<rparr>) (n, c) = (n + count v, c\<lparr> MaxKeepaliveAttempts := given v (MaxKeepaliveAttempts c) \<rparr>)"
  "set_if v (\<lambda>v c. c\<lparr> ResendInterval := v \<rparr>) (n, c) = (n + count v, c\<lparr> ResendInterval := given v (ResendInterval c) \<rparr>)"
  "set_if v (\<lambda>v c. c\<lparr> MaxResendCount := v \<rparr>) (n, c) = (n + count v, c\<lparr> MaxResendCount := given v (MaxResendCount c) \<rparr>)"
  "set_if v (\<lambda>v c. c\<lparr> WindowSizeWithScale := v \<rparr>) (n, c) = (n + count v, c\<lparr> WindowSizeWithScale := given v (WindowSizeWithScale c) \<rparr>)"
  "set_if v (\<lambda>v c. c\<lparr> ConnSignalRetryInterval := v \<rparr>) (n, c) = (n + count v, c\<lparr> ConnSignalRetryInterval := given v (ConnSignalRetryInterval c) \<rparr>)"
  "set_if v (\<lambda>v c. c\<lparr> ConnSignalRetry := v \<rparr>) (n, c) = (n + count v, c\<lparr> ConnSignalRetry := given v (ConnSignalRetry c) \<rparr>)"
  "set_if v (\<lambda>v c. c\<lparr> ConnectionInputQueue := v \<rparr>) (n, c) = (n + count v, c\<lparr> ConnectionInputQueue := given v (ConnectionInputQueue c) \<rparr>)"
  "set_if b (\<lambda>v c. c\<lparr> ShowStatistics := v \<rparr>) (n, c) = (n + count b, c\<lparr> ShowStatistics := given b (ShowStatistics c) \<rparr>)"
  by (simp_all add: set_if_def set_uncounted_def given_def count_def split: option.split)

lemma merged_core:
  "mergePcpCoreConfig (Some p) (n, c) = (n + (count (yaml_ProtocolID p) + count (yaml_PayloadPoolSize p) + count
     (yaml_PreferredMSS p) + count (yaml_Debug p) + count (yaml_PoolDebug p) + count (yaml_ProcessTimeThreshold p)),
     c\<lparr> ProtocolID := given (map_option word_of_int (yaml_ProtocolID p)) (ProtocolID c), PayloadPoolSize := given
     (yaml_PayloadPoolSize p) (PayloadPoolSize c), core_PreferredMSS := given (yaml_PreferredMSS p) (core_PreferredMSS c),
     core_Debug := given (yaml_Debug p) (core_Debug c), PoolDebug := given (yaml_PoolDebug p) (PoolDebug c),
     ProcessTimeThreshold := given (yaml_ProcessTimeThreshold p) (ProcessTimeThreshold c) \<rparr>)"
  by (simp add: mergePcpCoreConfig_def Let_def core_steps)

lemma merged_pconn:
  "mergePcpProtocolConnConfig (Some p) (n, c) = (n + (count (yaml_IptableRuleDelay p) + count (yaml_PacketLostSim p) +
     count (yaml_PConnTimeout p) + count (yaml_ClientPortUpper p) + count (yaml_ClientPortLower p) + count
     (yaml_PconnOutputQueue p) + count (yaml_DisableResendBackoff p)),      c\<lparr> IptableRuleDaley := given
     (yaml_IptableRuleDelay p) (IptableRuleDaley c), PacketLostSimulation := given (yaml_PacketLostSim p)
     (PacketLostSimulation c), PConnTimeout := given (yaml_PConnTimeout p) (PConnTimeout c), ClientPortUpper := given
     (yaml_ClientPortUpper p) (ClientPortUpper c), ClientPortLower := given (yaml_ClientPortLower p) (ClientPortLower c),
     VerifyChecksumOn := given (yaml_VerifyChecksum p) (VerifyChecksumOn c), PConnOutputQueue := given
     (yaml_PconnOutputQueue p) (PConnOutputQueue c), DisableResendBackoff := given (yaml_DisableResendBackoff p)
     (DisableResendBackoff c) \<rparr>)"
  by (simp add: mergePcpProtocolConnConfig_def Let_def pconn_steps)

lemma merged_conn:
  "mergeConnectionConfig (Some p) (n, c) = (n + (count (yaml_WindowScale p) + count (yaml_SackPermitSupport p) + count
     (yaml_SackOptionSupport p) + count (yaml_RetransmissionEnabled p) + count (yaml_IdleTimeout p) + count
     (yaml_KeepAliveEnabled p) + count (yaml_KeepaliveInterval p) + count (yaml_MaxKeepaliveAttempts p) + count
     (yaml_ResendInterval p) + count (yaml_MaxResendCount p) + count (yaml_WindowSizeWithScale p) + count
     (yaml_ConnSignalRetryInterval p) + count (yaml_ConnSignalRetry p) + count (yaml_ConnectionInputQueue p) + count
     (yaml_ShowStatistics p)),      c\<lparr> WindowScale := given (yaml_WindowScale p) (WindowScale c), SackPermitSupport
     := given (yaml_SackPermitSupport p) (SackPermitSupport c), SackOptionSupport := given (yaml_SackOptionSupport p)
     (SackOptionSupport c), RetransmissionEnabled := given (yaml_RetransmissionEnabled p) (RetransmissionEnabled c),
     IdleTimeout := given (yaml_IdleTimeout p) (IdleTimeout c), KeepAliveEnabled := given (yaml_KeepAliveEnabled p)
     (KeepAliveEnabled c), KeepaliveInterval := given (yaml_KeepaliveInterval p) (KeepaliveInterval c),
     MaxKeepaliveAttempts := given (yaml_MaxKeepaliveAttempts p) (MaxKeepaliveAttempts c), ResendInterval := given
     (yaml_ResendInterval p) (ResendInterval c), MaxResendCount := given (yaml_MaxResendCount p) (MaxResendCount c),
     WindowSizeWithScale := given (yaml_WindowSizeWithScale p) (WindowSizeWithScale c), ConnSignalRetryInterval := given
     (yaml_ConnSignalRetryInterval p) (ConnSignalRetryInterval c), ConnSignalRetry := given (yaml_ConnSignalRetry p)
     (ConnSignalRetry c), ConnectionInputQueue := given (yaml_ConnectionInputQueue p) (ConnectionInputQueue c),
     ShowStatistics := given (yaml_ShowStatistics p) (ShowStatistics c) \<rparr>)"
  by (simp add: mergeConnectionConfig_def Let_def conn_steps)

lemma merge_keeps_mss:
  "snd (mergeConnectionConfig m (n, c)) = c' \<Longrightarrow> PreferredMSS c' = PreferredMSS c"
  "snd (mergePcpProtocolConnConfig q (n, d)) = d' \<Longrightarrow> pconn_PreferredMSS d' = pconn_PreferredMSS d"
  "snd (mergePcpCoreConfig r (n, e)) = e' \<Longrightarrow> core_PreferredMSS e' = given (Option.bind r yaml_PreferredMSS) (core_PreferredMSS e)"
proof -
  show "snd (mergeConnectionConfig m (n, c)) = c' \<Longrightarrow> PreferredMSS c' = PreferredMSS c"
    by (cases m) (auto simp: merged_conn, simp add: mergeConnectionConfig_def)
  show "snd (mergePcpProtocolConnConfig q (n, d)) = d' \<Longrightarrow> pconn_PreferredMSS d' = pconn_PreferredMSS d"
    by (cases q) (auto simp: merged_pconn, simp add: mergePcpProtocolConnConfig_def)
  show "snd (mergePcpCoreConfig r (n, e)) = e' \<Longrightarrow> core_PreferredMSS e' = given (Option.bind r yaml_PreferredMSS) (core_PreferredMSS e)"
    by (cases r) (auto simp: merged_core, simp add: mergePcpCoreConfig_def given_def)
qed

lemma load_mss:
  assumes "LoadConfig got yaml counter = (Loaded core conn, counter')"
  shows "(PreferredMSS conn = core_PreferredMSS core \<and> pconn_PreferredMSS (core_pconnConfig core) = core_PreferredMSS core)
    \<or> (PreferredMSS conn = 1400 \<and> pconn_PreferredMSS (core_pconnConfig core) = 1440)"
proof (cases got)
  case FileMissing
  then show ?thesis using assms
    by (auto simp: LoadConfig_def DefaultPcpProtocolConnConfig_def DefaultConnectionConfig_def DefaultPcpCoreConfig_def)
next
  case (FileData d)
  obtain q where q: "yaml d = Some q" using assms FileData by (cases "yaml d") (simp_all add: LoadConfig_def)
  obtain n1 a where a: "mergePcpCoreConfig (yaml_CoreConfig q) (counter, DefaultPcpCoreConfig) = (n1, a)" by fastforce
  obtain n2 b where b: "mergePcpProtocolConnConfig (yaml_PcpConfig q) (n1, DefaultPcpProtocolConnConfig) = (n2, b)" by fastforce
  obtain n3 c where c: "mergeConnectionConfig (yaml_ConnConfig q) (n2, DefaultConnectionConfig) = (n3, c)" by fastforce
  have m: "core_PreferredMSS a = given (Option.bind (yaml_CoreConfig q) yaml_PreferredMSS) 1440" "pconn_PreferredMSS b = 1440" "PreferredMSS c = 1400"
    using merge_keeps_mss(3) [of "yaml_CoreConfig q" counter DefaultPcpCoreConfig a]
      merge_keeps_mss(2) [of "yaml_PcpConfig q" n1 DefaultPcpProtocolConnConfig b]
      merge_keeps_mss(1) [of "yaml_ConnConfig q" n2 DefaultConnectionConfig c] a b c
    by (simp_all add: DefaultPcpProtocolConnConfig_def DefaultConnectionConfig_def DefaultPcpCoreConfig_def)
  show ?thesis
    using assms FileData q a b c m
    by (cases "Option.bind (yaml_CoreConfig q) yaml_PreferredMSS") (auto simp: LoadConfig_def given_def)
qed (use assms in \<open>simp add: LoadConfig_def\<close>)

section \<open>A sample file\<close>

definition sample_core_part :: PartialPcpCoreConfig where
  "sample_core_part = \<lparr> yaml_ProtocolID = Some 262, yaml_PayloadPoolSize = None, yaml_PreferredMSS = Some 1200,
     yaml_Debug = None, yaml_PoolDebug = None, yaml_ProcessTimeThreshold = None \<rparr>"

definition sample_pconn_part :: PartialPcpProtocolConnConfig where
  "sample_pconn_part = \<lparr> yaml_IptableRuleDelay = None, yaml_PacketLostSim = None, yaml_PConnTimeout = None,
     yaml_ClientPortUpper = None, yaml_ClientPortLower = None, yaml_VerifyChecksum = Some True, yaml_PconnOutputQueue =
     None, yaml_DisableResendBackoff = None \<rparr>"

definition sample_conn_part :: PartialConnectionConfig where
  "sample_conn_part = \<lparr> yaml_WindowScale = None, yaml_SackPermitSupport = None, yaml_SackOptionSupport = None,
     yaml_RetransmissionEnabled = None, yaml_IdleTimeout = None, yaml_KeepAliveEnabled = None, yaml_KeepaliveInterval =
     None, yaml_MaxKeepaliveAttempts = None, yaml_ResendInterval = Some 50, yaml_MaxResendCount = None,
     yaml_WindowSizeWithScale = None, yaml_ConnSignalRetryInterval = None, yaml_ConnSignalRetry = None,
     yaml_ConnectionInputQueue = None, yaml_ShowStatistics = None \<rparr>"

definition sample_config :: PartialConfig where
  "sample_config = \<lparr> yaml_CoreConfig = Some sample_core_part, yaml_PcpConfig = Some sample_pconn_part,
     yaml_ConnConfig = Some sample_conn_part \<rparr>"

lemma sample_loads:
  "\<exists>core conn. LoadConfig (FileData ()) (\<lambda>_. Some sample_config) 0 = (Loaded core conn, 3) \<and> 0 \<le> core_PreferredMSS core"
  by (simp add: LoadConfig_def sample_config_def merged_core merged_pconn merged_conn count_def given_def
      sample_core_part_def sample_pconn_part_def sample_conn_part_def)

section \<open>Properties\<close>




text \<open>
  The printed number of configuration items found is not the number of keys in the file: the key
  for the checksum verification is not counted.
\<close>

theorem checksum_key_not_counted:
  assumes "LoadConfig (FileData d) yaml counter = (Loaded core conn, counter')"
    and "yaml d = Some \<lparr> yaml_CoreConfig = Some pc, yaml_PcpConfig = Some pp, yaml_ConnConfig = Some pn \<rparr>"
  shows "counter' = counter + (count (yaml_ProtocolID pc) + count (yaml_PayloadPoolSize pc) + count (yaml_PreferredMSS pc) + count (yaml_Debug pc) + count (yaml_PoolDebug pc) + count (yaml_ProcessTimeThreshold pc)
      + count (yaml_IptableRuleDelay pp) + count (yaml_PacketLostSim pp) + count (yaml_PConnTimeout pp) + count (yaml_ClientPortUpper pp) + count (yaml_ClientPortLower pp) + count (yaml_PconnOutputQueue pp) + count (yaml_DisableResendBackoff pp)
      + count (yaml_WindowScale pn) + count (yaml_SackPermitSupport pn) + count (yaml_SackOptionSupport pn) + count (yaml_RetransmissionEnabled pn) + count (yaml_IdleTimeout pn) + count (yaml_KeepAliveEnabled pn) + count (yaml_KeepaliveInterval pn) + count (yaml_MaxKeepaliveAttempts pn) + count (yaml_ResendInterval pn) + count (yaml_MaxResendCount pn) + count (yaml_WindowSizeWithScale pn) + count (yaml_ConnSignalRetryInterval pn) + count (yaml_ConnSignalRetry pn) + count (yaml_ConnectionInputQueue pn) + count (yaml_ShowStatistics pn))"
  using assms
  by (cases "yaml_PreferredMSS pc") (auto simp: LoadConfig_def merged_core merged_pconn merged_conn)

theorem checksum_key_not_counted_witness:
  "\<exists>core conn. LoadConfig (FileData ()) (\<lambda>_. Some sample_config) 0 = (Loaded core conn, 3)"
proof -
  obtain core conn n where l: "LoadConfig (FileData ()) (\<lambda>_. Some sample_config) 0 = (Loaded core conn, n)" using sample_loads by blast
  show ?thesis
    using checksum_key_not_counted [OF l, of sample_core_part sample_pconn_part sample_conn_part] l
    by (simp add: sample_config_def sample_core_part_def sample_pconn_part_def sample_conn_part_def count_def)
qed





end
