(* ===== verification/Filter_Common.thy ===== *)
theory Filter_Common
  imports Go_Text "HOL-Library.Sublist"
begin

text \<open>
  What the packet filters of \<open>filter/\<close> share: the text functions of the standard library they use,
  the tool they run (\<open>pfctl\<close>, \<open>iptables\<close>, \<open>nft\<close>; other code, so an argument \<open>run\<close> that maps a
  command line and the tool's state to its success, its output and its new state) and the dummy UDP
  server of \<open>filter/filter.go\<close>.
\<close>

section \<open>Text\<close>

definition newline :: char where "newline = CHR 0x0A"

fun split_at :: "char \<Rightarrow> string \<Rightarrow> string list" where
  \<comment> \<open>\<open>strings.Split\<close> at a separator of one character\<close>
  "split_at sep [] = [[]]"
| "split_at sep (c # cs) =
     (if c = sep then [] # split_at sep cs
      else case split_at sep cs of [] \<Rightarrow> [[c]] | l # ls \<Rightarrow> (c # l) # ls)"

fun join_with :: "string \<Rightarrow> string list \<Rightarrow> string" where
  \<comment> \<open>\<open>strings.Join\<close>\<close>
  "join_with sep [] = []"
| "join_with sep [l] = l"
| "join_with sep (l # ls) = l @ sep @ join_with sep ls"

definition is_space :: "char \<Rightarrow> bool" where
  "is_space c \<longleftrightarrow> c \<in> {CHR '' '', CHR 0x09, CHR 0x0A, CHR 0x0B, CHR 0x0C, CHR 0x0D}"

definition trim_space :: "string \<Rightarrow> string" where
  \<comment> \<open>\<open>strings.TrimSpace\<close>, of ASCII text\<close>
  "trim_space s = rev (dropWhile is_space (rev (dropWhile is_space s)))"

fun replace_first :: "string \<Rightarrow> string \<Rightarrow> string \<Rightarrow> string" where
  \<comment> \<open>\<open>strings.Replace(s, old, new, 1)\<close> for a non-empty \<open>old\<close>\<close>
  "replace_first old new [] = []"
| "replace_first old new (c # cs) =
     (if prefix old (c # cs) then new @ drop (length old) (c # cs) else c # replace_first old new cs)"

definition last_colon :: "string \<Rightarrow> nat option" where
  "last_colon s =
     (case filter (\<lambda>i. s ! i = CHR '':'') [0..<length s] of [] \<Rightarrow> None | is \<Rightarrow> Some (last is))"

definition first_bracket :: "string \<Rightarrow> nat option" where
  "first_bracket s = (case filter (\<lambda>i. s ! i = CHR '']'') [0..<length s] of [] \<Rightarrow> None | i # _ \<Rightarrow> Some i)"

definition SplitHostPort :: "string \<Rightarrow> (string \<times> string) option" where
  \<comment> \<open>\<open>net.SplitHostPort\<close>; every error is \<open>None\<close>\<close>
  "SplitHostPort hostport =
     (case last_colon hostport of None \<Rightarrow> None
      | Some i \<Rightarrow>
          let finish = (\<lambda>host j k.
                if CHR ''['' \<in> set (drop j hostport) \<or> CHR '']'' \<in> set (drop k hostport) then None
                else Some (host, drop (i + 1) hostport))
          in if hostport ! 0 = CHR ''[''
             then (case first_bracket hostport of None \<Rightarrow> None
                 | Some e \<Rightarrow> if e + 1 = i then finish (take (e - 1) (drop 1 hostport)) 1 (e + 1) else None)
             else if CHR '':'' \<in> set (take i hostport) then None
             else finish (take i hostport) 0 0)"

section \<open>The dummy UDP server\<close>

record udpServerFilter =
  udpSrcMap :: "(string \<times> nat) list"
  udpSockets :: "bool list"
    \<comment> \<open>the sockets made, and whether each is open\<close>

datatype filter_error = InvalidUdpAddress | UdpListenFailed | ToolFailed | RuleExists | RuleNotFound | InvalidAddress
  | DeletesFailed | VerifyFailed | NotRunning | NoFirewallTool | DivertFailed | FilterDisabled | AnchorMissing

type_synonym 's tool = "string list \<Rightarrow> 's \<Rightarrow> (bool \<times> string) \<times> 's"
type_synonym 's outcome = "filter_error option \<times> 's"

definition NewUdpServerFilter :: udpServerFilter where
  "NewUdpServerFilter = \<lparr> udpSrcMap = [], udpSockets = [] \<rparr>"

definition AddUdpServerFiltering :: "bool \<Rightarrow> bool \<Rightarrow> string \<Rightarrow> udpServerFilter \<Rightarrow> filter_error option \<times> udpServerFilter" where
  \<comment> \<open>\<open>resolves\<close> and \<open>listens\<close>: the answers of \<open>net.ResolveUDPAddr\<close> and \<open>net.ListenUDP\<close>\<close>
  "AddUdpServerFiltering resolves listens srcAddr u =
     (if map_of (udpSrcMap u) srcAddr \<noteq> None then (None, u)
      else if \<not> resolves then (Some InvalidUdpAddress, u)
      else if \<not> listens then (Some UdpListenFailed, u)
      else (None, u\<lparr> udpSrcMap := (srcAddr, length (udpSockets u)) # udpSrcMap u, udpSockets := udpSockets u @ [True] \<rparr>))"

definition RemoveUdpServerFiltering :: "string \<Rightarrow> udpServerFilter \<Rightarrow> filter_error option \<times> udpServerFilter" where
  "RemoveUdpServerFiltering srcAddr u =
     (case map_of (udpSrcMap u) srcAddr of
        Some conn \<Rightarrow> (None, u\<lparr> udpSockets := (udpSockets u)[conn := False] \<rparr>)
      | None \<Rightarrow> (None, u))"

definition udp_filtered :: "string \<Rightarrow> udpServerFilter \<Rightarrow> bool" where
  \<comment> \<open>a socket listens at the address\<close>
  "udp_filtered srcAddr u \<longleftrightarrow> (\<exists>conn. map_of (udpSrcMap u) srcAddr = Some conn \<and> conn < length (udpSockets u) \<and> udpSockets u ! conn)"

section \<open>Lemmas\<close>

lemma split_at_not_Nil [simp]: "split_at sep s \<noteq> []"
  by (induction s) (auto split: list.splits)

lemma split_at_parts: "l \<in> set (split_at sep s) \<Longrightarrow> set l \<subseteq> set s"
proof (induction s arbitrary: l)
  case (Cons c cs)
  show ?case
  proof (cases "c = sep")
    case False
    obtain m ms where m: "split_at sep cs = m # ms" by (cases "split_at sep cs") auto
    then have "set m \<subseteq> set cs" "\<And>x. x \<in> set ms \<Longrightarrow> set x \<subseteq> set cs" using Cons.IH by auto
    then show ?thesis using Cons.prems False m by auto
  qed (use Cons in auto)
qed simp

section \<open>Properties\<close>

text \<open>
  An address can be filtered only once: the first call starts a dummy UDP server, removing it stops
  the server but keeps its entry, and a second call for the same address then reports success
  although nothing listens there, however often it is made.
\<close>

theorem removed_udp_filter_stays_off:
  assumes "map_of (udpSrcMap u) a = None" "AddUdpServerFiltering True True a u = (r1, u1)"
    and "RemoveUdpServerFiltering a u1 = (r2, u2)" "AddUdpServerFiltering resolves listens a u2 = (r3, u3)"
  shows "r1 = None \<and> udp_filtered a u1 \<and> r2 = None \<and> r3 = None \<and> u3 = u2 \<and> \<not> udp_filtered a u3"
proof -
  have u1: "r1 = None" "u1 = u\<lparr> udpSrcMap := (a, length (udpSockets u)) # udpSrcMap u, udpSockets := udpSockets u @ [True] \<rparr>"
    using assms(1,2) by (simp_all add: AddUdpServerFiltering_def)
  then have u2: "r2 = None" "u2 = u1\<lparr> udpSockets := udpSockets u @ [False] \<rparr>"
    using assms(3) by (simp_all add: RemoveUdpServerFiltering_def)
  then have "r3 = None" "u3 = u2" using assms(4) u1(2) by (simp_all add: AddUdpServerFiltering_def)
  then show ?thesis using u1 u2 by (simp add: udp_filtered_def)
qed

theorem removed_udp_filter_stays_off_witness:
  "\<exists>u1 u2 u3. AddUdpServerFiltering True True ''10.0.0.1:9'' NewUdpServerFilter = (None, u1)
    \<and> RemoveUdpServerFiltering ''10.0.0.1:9'' u1 = (None, u2) \<and> AddUdpServerFiltering True True ''10.0.0.1:9'' u2 = (None, u3)
    \<and> udp_filtered ''10.0.0.1:9'' u1 \<and> \<not> udp_filtered ''10.0.0.1:9'' u3"
proof -
  obtain r1 u1 r2 u2 r3 u3 where e: "AddUdpServerFiltering True True ''10.0.0.1:9'' NewUdpServerFilter = (r1, u1)"
    "RemoveUdpServerFiltering ''10.0.0.1:9'' u1 = (r2, u2)" "AddUdpServerFiltering True True ''10.0.0.1:9'' u2 = (r3, u3)"
    by (metis prod.exhaust)
  have "map_of (udpSrcMap NewUdpServerFilter) ''10.0.0.1:9'' = None" by (simp add: NewUdpServerFilter_def)
  from removed_udp_filter_stays_off [OF this e] show ?thesis using e by metis
qed

end
