(* ===== verification/Filter_Linux.thy ===== *)
theory Filter_Linux
  imports Filter_Common
begin

text \<open>
  \<open>filter/filter-linux.go\<close>: the filters over \<open>iptables\<close> and \<open>nft\<close>. A function takes the tool
  \<open>run\<close> and its state and returns its error and the tool's new state. The regular expressions of
  the source are written out as the search they describe: in a raw string \<open>(\\d+)\<close> stands for a
  backslash and one or more letters \<open>d\<close>.
\<close>

section \<open>The code: iptables\<close>

definition quote :: string where "quote = [CHR 0x22]"

definition ipt_client_rule :: "string \<Rightarrow> string \<Rightarrow> int \<Rightarrow> string list" where
  "ipt_client_rule comment dst prt =
     [''-p'', ''tcp'', ''--tcp-flags'', ''RST'', ''RST'', ''-d'', dst, ''--dport'', dec_int prt,
      ''-m'', ''comment'', ''--comment'', comment, ''-j'', ''DROP'']"

definition ipt_server_rule :: "string \<Rightarrow> string \<Rightarrow> int \<Rightarrow> string list" where
  "ipt_server_rule comment src prt =
     [''-p'', ''tcp'', ''--tcp-flags'', ''RST'', ''RST'', ''-s'', src, ''--sport'', dec_int prt,
      ''-m'', ''comment'', ''--comment'', comment, ''-j'', ''DROP'']"

definition ipt_udp_rule :: "string \<Rightarrow> string list" where
  "ipt_udp_rule ip = [''-d'', ip, ''-p'', ''icmp'', ''--icmp-type'', ''3/3'', ''-j'', ''DROP'']"

definition ipt_add :: "'s tool \<Rightarrow> string \<Rightarrow> string list \<Rightarrow> 's \<Rightarrow> 's outcome" where
  \<comment> \<open>the common part of the three functions that add: look for the text, then append the rule\<close>
  "ipt_add run ruleCheck rule s =
     (case run [''iptables'', ''-S'', ''OUTPUT''] s of
        ((False, out), s1) \<Rightarrow> (Some ToolFailed, s1)
      | ((True, out), s1) \<Rightarrow>
          if sublist ruleCheck out then (None, s1)
          else (case run ([''iptables'', ''-A'', ''OUTPUT''] @ rule) s1 of
              ((False, _), s2) \<Rightarrow> (Some ToolFailed, s2)
            | ((True, _), s2) \<Rightarrow> (None, s2)))"

definition ipt_remove :: "'s tool \<Rightarrow> string list \<Rightarrow> 's \<Rightarrow> 's outcome" where
  "ipt_remove run rule s =
     (case run ([''iptables'', ''-D'', ''OUTPUT''] @ rule) s of
        ((False, _), s1) \<Rightarrow> (Some ToolFailed, s1) | ((True, _), s1) \<Rightarrow> (None, s1))"

definition ipt_AddTcpClientFiltering :: "'s tool \<Rightarrow> string \<Rightarrow> string \<Rightarrow> int \<Rightarrow> 's \<Rightarrow> 's outcome" where
  "ipt_AddTcpClientFiltering run comment dst prt =
     ipt_add run (''-A OUTPUT -p tcp --tcp-flags RST RST -d '' @ dst @ '' --dport '' @ dec_int prt
         @ '' -m comment --comment '' @ quote @ comment @ quote @ '' -j DROP'')
       (ipt_client_rule comment dst prt)"

definition ipt_RemoveTcpClientFiltering :: "'s tool \<Rightarrow> string \<Rightarrow> string \<Rightarrow> int \<Rightarrow> 's \<Rightarrow> 's outcome" where
  "ipt_RemoveTcpClientFiltering run comment dst prt = ipt_remove run (ipt_client_rule comment dst prt)"

definition ipt_AddTcpServerFiltering :: "'s tool \<Rightarrow> string \<Rightarrow> string \<Rightarrow> int \<Rightarrow> 's \<Rightarrow> 's outcome" where
  "ipt_AddTcpServerFiltering run comment src prt =
     ipt_add run (''-A OUTPUT -p tcp --tcp-flags RST RST -s '' @ src @ '' --sport '' @ dec_int prt
         @ '' -m comment --comment '' @ comment @ '' -j DROP'')
       (ipt_server_rule comment src prt)"

definition ipt_RemoveTcpServerFiltering :: "'s tool \<Rightarrow> string \<Rightarrow> string \<Rightarrow> int \<Rightarrow> 's \<Rightarrow> 's outcome" where
  "ipt_RemoveTcpServerFiltering run comment src prt = ipt_remove run (ipt_server_rule comment src prt)"

definition ipt_AddUdpClientFiltering :: "'s tool \<Rightarrow> string \<Rightarrow> 's \<Rightarrow> 's outcome" where
  "ipt_AddUdpClientFiltering run dstAddr s =
     (case SplitHostPort dstAddr of None \<Rightarrow> (Some InvalidAddress, s)
      | Some (ipStr, _) \<Rightarrow>
          ipt_add run (''-A OUTPUT -d '' @ ipStr @ '' -p icmp -m icmp --icmp-type 3/3 -j DROP'') (ipt_udp_rule ipStr) s)"

definition ipt_RemoveUdpClientFiltering :: "'s tool \<Rightarrow> string \<Rightarrow> 's \<Rightarrow> 's outcome" where
  "ipt_RemoveUdpClientFiltering run dstAddr s =
     (case SplitHostPort dstAddr of None \<Rightarrow> (Some InvalidAddress, s)
      | Some (ipStr, _) \<Rightarrow> ipt_remove run (ipt_udp_rule ipStr) s)"

fun ipt_delete_lines :: "'s tool \<Rightarrow> string \<Rightarrow> string list \<Rightarrow> 's \<Rightarrow> bool \<times> 's" where
  \<comment> \<open>whether every delete succeeded\<close>
  "ipt_delete_lines run comment [] s = (True, s)"
| "ipt_delete_lines run comment (line # rest) s =
     (if sublist (''--comment '' @ quote @ comment @ quote) line
      then (let ((ok, out), s1) = run [''sh'', ''-c'', ''iptables '' @ replace_first ''-A'' ''-D'' line] s;
                (oks, s2) = ipt_delete_lines run comment rest s1
            in (ok \<and> oks, s2))
      else ipt_delete_lines run comment rest s)"

definition ipt_FinishFiltering :: "'s tool \<Rightarrow> string \<Rightarrow> 's \<Rightarrow> 's outcome" where
  "ipt_FinishFiltering run comment s =
     (case run [''iptables'', ''-S''] s of
        ((False, out), s1) \<Rightarrow> (Some ToolFailed, s1)
      | ((True, out), s1) \<Rightarrow>
          (let (ok, s2) = ipt_delete_lines run comment (split_at newline out) s1
           in (if ok then None else Some DeletesFailed, s2)))"

section \<open>The code: nftables\<close>

definition nft_list :: "string list" where
  "nft_list = [''list'', ''chain'', ''inet'', ''filter'', ''output'']"

definition ensureTableAndChain :: "'s tool \<Rightarrow> 's \<Rightarrow> 's outcome" where
  "ensureTableAndChain run s =
     (let ((table, _), s1) = run [''nft'', ''list'', ''table'', ''inet'', ''filter''] s;
          ((made, _), s2) = (if table then ((True, []), s1) else run [''nft'', ''add'', ''table'', ''inet'', ''filter''] s1)
      in if \<not> made then (Some ToolFailed, s2)
         else
           let ((chain, _), s3) = run (''nft'' # nft_list) s2;
               ((made2, _), s4) = (if chain then ((True, []), s3)
                 else run [''nft'', ''add'', ''chain'', ''inet'', ''filter'', ''output'', ''{'', ''type'', ''filter'', ''hook'',
                        ''output'', ''priority'', ''0'', '';'', ''}''] s3)
           in (if made2 then None else Some ToolFailed, s4))"

definition nft_add :: "'s tool \<Rightarrow> string \<Rightarrow> string \<Rightarrow> 's \<Rightarrow> 's outcome" where
  \<comment> \<open>the common part of \<open>addRule\<close> and \<open>addGenericRule\<close>\<close>
  "nft_add run ruleCheck rule s =
     (case ensureTableAndChain run s of
        (Some e, s1) \<Rightarrow> (Some e, s1)
      | (None, s1) \<Rightarrow>
          (case run (''nft'' # nft_list) s1 of
            ((False, _), s2) \<Rightarrow> (Some ToolFailed, s2)
          | ((True, out), s2) \<Rightarrow>
              if sublist ruleCheck out then (None, s2)
              else (case run [''nft'', ''add'', ''rule'', ''inet'', ''filter'', ''output'', rule] s2 of
                  ((False, _), s3) \<Rightarrow> (Some ToolFailed, s3)
                | ((True, _), s3) \<Rightarrow> (None, s3))))"

definition nft_pattern :: "bool \<Rightarrow> string \<Rightarrow> int \<Rightarrow> string" where
  "nft_pattern server ip prt =
     (if server then ''ip saddr '' @ ip @ '' tcp sport '' @ dec_int prt @ '' tcp flags rst drop''
      else ''ip daddr '' @ ip @ '' tcp dport '' @ dec_int prt @ '' tcp flags rst drop'')"

definition addRule :: "'s tool \<Rightarrow> string \<Rightarrow> string \<Rightarrow> int \<Rightarrow> bool \<Rightarrow> 's \<Rightarrow> 's outcome" where
  "addRule run identifier ip prt server =
     nft_add run (nft_pattern server ip prt) (nft_pattern server ip prt @ '' comment '' @ quote @ identifier @ quote)"

definition handle_header :: string where
  \<comment> \<open>what the expression asks for before the letters \<open>d\<close>\<close>
  "handle_header = '' # handle '' @ [CHR 0x5C]"

definition handle_at :: "string \<Rightarrow> nat \<Rightarrow> bool" where
  "handle_at line i \<longleftrightarrow> prefix (handle_header @ ''d'') (drop i line)"

definition handle_in :: "string \<Rightarrow> string \<Rightarrow> string option" where
  \<comment> \<open>the group matched in a line that has the pattern before the handle\<close>
  "handle_in pat line =
     (case filter (\<lambda>i. handle_at line i \<and> sublist pat (take i line)) [0..<length line] of
        [] \<Rightarrow> None
      | is \<Rightarrow> Some (CHR 0x5C # takeWhile (\<lambda>c. c = CHR ''d'') (drop (last is + length handle_header) line)))"

fun first_handle :: "string \<Rightarrow> string list \<Rightarrow> string" where
  "first_handle pat [] = []"
| "first_handle pat (line # rest) = (case handle_in pat line of Some h \<Rightarrow> h | None \<Rightarrow> first_handle pat rest)"

definition findRuleHandle :: "'s tool \<Rightarrow> string \<Rightarrow> 's \<Rightarrow> (filter_error + string) \<times> 's" where
  "findRuleHandle run rulePattern s =
     (case run ([''nft'', ''--handle''] @ nft_list) s of
        ((False, out), s1) \<Rightarrow> (if sublist ''No such file or directory'' out then Inr [] else Inl ToolFailed, s1)
      | ((True, out), s1) \<Rightarrow> (Inr (first_handle rulePattern (split_at newline out)), s1))"

definition nft_delete :: "string \<Rightarrow> string list" where
  "nft_delete handle = [''nft'', ''delete'', ''rule'', ''inet'', ''filter'', ''output'', ''handle'', handle]"

definition removeGenericRule :: "'s tool \<Rightarrow> string \<Rightarrow> 's \<Rightarrow> 's outcome" where
  \<comment> \<open>\<open>removeRule\<close> differs in its messages only\<close>
  "removeGenericRule run rulePattern s =
     (case findRuleHandle run rulePattern s of
        (Inl e, s1) \<Rightarrow> (Some e, s1)
      | (Inr handle, s1) \<Rightarrow>
          if handle = [] then (None, s1)
          else (case run (nft_delete handle) s1 of ((False, _), s2) \<Rightarrow> (Some ToolFailed, s2) | ((True, _), s2) \<Rightarrow> (None, s2)))"

definition removeRule :: "'s tool \<Rightarrow> string \<Rightarrow> int \<Rightarrow> bool \<Rightarrow> 's \<Rightarrow> 's outcome" where
  "removeRule run ip prt server = removeGenericRule run (nft_pattern server ip prt)"

definition nft_udp_pattern :: "string \<Rightarrow> string" where
  "nft_udp_pattern ipStr = ''ip daddr '' @ ipStr @ '' icmp type destination-unreachable drop''"

definition nft_AddUdpClientFiltering :: "'s tool \<Rightarrow> string \<Rightarrow> string \<Rightarrow> 's \<Rightarrow> 's outcome" where
  \<comment> \<open>the text looked for is the rule without its comment, trimmed, for an identifier without
     a quotation mark\<close>
  "nft_AddUdpClientFiltering run identifier dstAddr s =
     (case SplitHostPort dstAddr of None \<Rightarrow> (Some InvalidAddress, s)
      | Some (ipStr, _) \<Rightarrow>
          nft_add run (trim_space (nft_udp_pattern ipStr @ '' ''))
            (nft_udp_pattern ipStr @ '' comment '' @ quote @ identifier @ quote) s)"

definition nft_RemoveUdpClientFiltering :: "'s tool \<Rightarrow> string \<Rightarrow> 's \<Rightarrow> 's outcome" where
  "nft_RemoveUdpClientFiltering run dstAddr s =
     (case SplitHostPort dstAddr of None \<Rightarrow> (Some InvalidAddress, s)
      | Some (ipStr, _) \<Rightarrow> removeGenericRule run (nft_udp_pattern ipStr) s)"

fun nft_delete_all :: "'s tool \<Rightarrow> string list \<Rightarrow> 's \<Rightarrow> 's" where
  \<comment> \<open>failures are only logged\<close>
  "nft_delete_all run [] s = s"
| "nft_delete_all run (h # hs) s = nft_delete_all run hs (snd (run (nft_delete h) s))"

definition nft_FinishFiltering :: "'s tool \<Rightarrow> string \<Rightarrow> 's \<Rightarrow> 's outcome" where
  \<comment> \<open>for an identifier without characters that are special in a regular expression\<close>
  "nft_FinishFiltering run identifier s =
     (case run ([''nft'', ''--handle''] @ nft_list) s of
        ((False, out), s1) \<Rightarrow> (if sublist ''No such file or directory'' out then None else Some ToolFailed, s1)
      | ((True, out), s1) \<Rightarrow>
          (None, nft_delete_all run
             (List.map_filter (handle_in (''comment '' @ quote @ identifier @ quote)) (split_at newline out)) s1))"

section \<open>The code: choosing the tool\<close>

datatype firewallTool = Iptables | Nftables | NoTool

definition detectFirewallTool :: "(string \<Rightarrow> bool) \<Rightarrow> 's tool \<Rightarrow> 's \<Rightarrow> firewallTool \<times> 's" where
  \<comment> \<open>\<open>found\<close>: the answer of \<open>exec.LookPath\<close>\<close>
  "detectFirewallTool found run s =
     (let ((nft, _), s1) = (if found ''nft'' then run [''nft'', ''list'', ''tables''] s else ((False, []), s))
      in if nft then (Nftables, s1)
         else let ((ipt, _), s2) = (if found ''iptables'' then run [''iptables'', ''-S''] s1 else ((False, []), s1))
              in (if ipt then Iptables else NoTool, s2))"

record linux_filter =
  lin_tool :: firewallTool
  lin_identifier :: string
  lin_udp :: udpServerFilter

definition lin_NewFilter :: "(string \<Rightarrow> bool) \<Rightarrow> 's tool \<Rightarrow> string \<Rightarrow> 's \<Rightarrow> linux_filter option \<times> 's" where
  "lin_NewFilter found run identifier s =
     (let (tool, s1) = detectFirewallTool found run s
      in (if tool = NoTool then None
          else Some \<lparr> lin_tool = tool, lin_identifier = identifier, lin_udp = NewUdpServerFilter \<rparr>, s1))"

definition lin_AddTcpClientFiltering :: "'s tool \<Rightarrow> linux_filter \<Rightarrow> string \<Rightarrow> int \<Rightarrow> 's \<Rightarrow> 's outcome" where
  "lin_AddTcpClientFiltering run f dst prt =
     (if lin_tool f = Nftables then addRule run (lin_identifier f) dst prt False
      else ipt_AddTcpClientFiltering run (lin_identifier f) dst prt)"

definition lin_RemoveTcpClientFiltering :: "'s tool \<Rightarrow> linux_filter \<Rightarrow> string \<Rightarrow> int \<Rightarrow> 's \<Rightarrow> 's outcome" where
  "lin_RemoveTcpClientFiltering run f dst prt =
     (if lin_tool f = Nftables then removeRule run dst prt False
      else ipt_RemoveTcpClientFiltering run (lin_identifier f) dst prt)"

definition lin_AddTcpServerFiltering :: "'s tool \<Rightarrow> linux_filter \<Rightarrow> string \<Rightarrow> int \<Rightarrow> 's \<Rightarrow> 's outcome" where
  "lin_AddTcpServerFiltering run f src prt =
     (if lin_tool f = Nftables then addRule run (lin_identifier f) src prt True
      else ipt_AddTcpServerFiltering run (lin_identifier f) src prt)"

definition lin_RemoveTcpServerFiltering :: "'s tool \<Rightarrow> linux_filter \<Rightarrow> string \<Rightarrow> int \<Rightarrow> 's \<Rightarrow> 's outcome" where
  "lin_RemoveTcpServerFiltering run f src prt =
     (if lin_tool f = Nftables then removeRule run src prt True
      else ipt_RemoveTcpServerFiltering run (lin_identifier f) src prt)"

definition lin_AddUdpClientFiltering :: "'s tool \<Rightarrow> linux_filter \<Rightarrow> string \<Rightarrow> 's \<Rightarrow> 's outcome" where
  "lin_AddUdpClientFiltering run f dstAddr =
     (if lin_tool f = Nftables then nft_AddUdpClientFiltering run (lin_identifier f) dstAddr
      else ipt_AddUdpClientFiltering run dstAddr)"

definition lin_RemoveUdpClientFiltering :: "'s tool \<Rightarrow> linux_filter \<Rightarrow> string \<Rightarrow> 's \<Rightarrow> 's outcome" where
  "lin_RemoveUdpClientFiltering run f dstAddr =
     (if lin_tool f = Nftables then nft_RemoveUdpClientFiltering run dstAddr else ipt_RemoveUdpClientFiltering run dstAddr)"

definition lin_FinishFiltering :: "'s tool \<Rightarrow> linux_filter \<Rightarrow> 's \<Rightarrow> 's outcome" where
  "lin_FinishFiltering run f =
     (if lin_tool f = Nftables then nft_FinishFiltering run (lin_identifier f) else ipt_FinishFiltering run (lin_identifier f))"

section \<open>Properties\<close>

definition chain_tool :: "'s tool \<Rightarrow> ('s \<Rightarrow> string list list) \<Rightarrow> bool" where
  \<comment> \<open>the documented behaviour of \<open>iptables\<close> on a chain: \<open>-S\<close> prints it and changes nothing, \<open>-A\<close>
     appends a rule, \<open>-D\<close> deletes the first rule that is the one given\<close>
  "chain_tool run rules \<longleftrightarrow>
     (\<forall>s. \<exists>out. run [''iptables'', ''-S'', ''OUTPUT''] s = ((True, out), s))
     \<and> (\<forall>r s. \<exists>out s'. run ([''iptables'', ''-A'', ''OUTPUT''] @ r) s = ((True, out), s') \<and> rules s' = rules s @ [r])
     \<and> (\<forall>r s. r \<in> set (rules s) \<longrightarrow>
          (\<exists>out s'. run ([''iptables'', ''-D'', ''OUTPUT''] @ r) s = ((True, out), s') \<and> rules s' = remove1 r (rules s)))"

lemma add_then_remove:
  assumes "chain_tool run rules" "rule \<notin> set (rules s)" "ipt_add run check rule s = (e, s1)"
  shows "e = None \<and> (rules s1 = rules s \<or> (rules s1 = rules s @ [rule]
     \<and> (\<exists>s2. ipt_remove run rule s1 = (None, s2) \<and> rules s2 = rules s)))"
proof -
  obtain out where l: "run [''iptables'', ''-S'', ''OUTPUT''] s = ((True, out), s)"
    using assms(1) unfolding chain_tool_def by blast
  obtain out2 s' where a: "run ([''iptables'', ''-A'', ''OUTPUT''] @ rule) s = ((True, out2), s')" "rules s' = rules s @ [rule]"
    using assms(1) unfolding chain_tool_def by blast
  then have "rule \<in> set (rules s')" by simp
  then obtain out3 s2 where d: "run ([''iptables'', ''-D'', ''OUTPUT''] @ rule) s' = ((True, out3), s2)" "rules s2 = remove1 rule (rules s')"
    using assms(1) unfolding chain_tool_def by blast
  have "rules s2 = rules s" using d(2) a(2) assms(2) by (simp add: remove1_append)
  then show ?thesis
    using assms(3) l a d(1) by (cases "sublist check out") (auto simp: ipt_add_def ipt_remove_def)
qed


definition list_chain :: "string list list tool" where
  \<comment> \<open>a chain kept as a list, printed without any text\<close>
  "list_chain args rules =
     (if take 3 args = [''iptables'', ''-A'', ''OUTPUT''] then ((True, []), rules @ [drop 3 args])
      else if take 3 args = [''iptables'', ''-D'', ''OUTPUT'']
      then (if drop 3 args \<in> set rules then ((True, []), remove1 (drop 3 args) rules) else ((False, []), rules))
      else ((True, []), rules))"

lemma list_chain_tool: "chain_tool list_chain (\<lambda>rules. rules)"
  by (auto simp: chain_tool_def list_chain_def)


lemma no_handle_found:
  assumes "CHR 0x5C \<notin> set out"
  shows "first_handle pat (split_at newline out) = []" "List.map_filter (handle_in pat) (split_at newline out) = []"
proof -
  have n: "handle_in pat line = None" if "line \<in> set (split_at newline out)" for line
  proof -
    have "\<not> handle_at line i" for i
    proof
      assume "handle_at line i"
      then have "CHR 0x5C \<in> set (drop i line)"
        by (auto simp: handle_at_def handle_header_def prefix_def)
      then show False using split_at_parts [OF that] assms by (auto dest: in_set_dropD)
    qed
    then show ?thesis by (simp add: handle_in_def)
  qed
  then show "List.map_filter (handle_in pat) (split_at newline out) = []"
    by (induction "split_at newline out") (auto simp: List.map_filter_def filter_empty_conv)
  have "(\<And>line. line \<in> set ls \<Longrightarrow> handle_in pat line = None) \<Longrightarrow> first_handle pat ls = []" for ls
    by (induction ls) auto
  then show "first_handle pat (split_at newline out) = []" using n by blast
qed

text \<open>
  C40. With \<open>nft\<close>, no rule is ever removed: \<open>nft\<close> prints a handle as a number, but the raw string in the
  expression asks for a backslash. Removing one rule and finishing both report success after the
  listing alone, and run no command that deletes.
\<close>

theorem nft_rules_never_removed:
  assumes "run ([''nft'', ''--handle''] @ nft_list) s = ((True, out), s1)" "CHR 0x5C \<notin> set out" "lin_tool f = Nftables"
  shows "lin_RemoveTcpClientFiltering run f addr prt s = (None, s1) \<and> lin_RemoveTcpServerFiltering run f addr prt s = (None, s1)
    \<and> lin_FinishFiltering run f s = (None, s1)"
  using assms no_handle_found [OF assms(2)]
  by (simp add: lin_RemoveTcpClientFiltering_def lin_RemoveTcpServerFiltering_def lin_FinishFiltering_def removeRule_def
      removeGenericRule_def findRuleHandle_def nft_FinishFiltering_def)

definition one_rule :: "nat tool" where
  \<comment> \<open>a chain that prints one rule with its handle, and counts the commands that delete\<close>
  "one_rule args n = ((True, ''ip daddr 10.0.0.2 tcp dport 8901 tcp flags rst drop # handle 4''),
     if take 2 args = [''nft'', ''delete''] then n + 1 else n)"

theorem nft_rules_never_removed_witness:
  "lin_RemoveTcpClientFiltering one_rule \<lparr> lin_tool = Nftables, lin_identifier = ''PCP'', lin_udp = NewUdpServerFilter \<rparr>
    ''10.0.0.2'' 8901 0 = (None, 0)"
proof -
  have "one_rule ([''nft'', ''--handle''] @ nft_list) 0
      = ((True, ''ip daddr 10.0.0.2 tcp dport 8901 tcp flags rst drop # handle 4''), 0)" by (simp add: one_rule_def nft_list_def)
  from nft_rules_never_removed [where run = one_rule and s = 0, OF this] show ?thesis by simp
qed

end
