(* ===== verification/Filter_Mac.thy ===== *)
theory Filter_Mac
  imports Filter_Common
begin

text \<open>
  \<open>filter/filter-macos.go\<close>: the filter over \<open>pfctl\<close>, which reads the rules of an anchor, changes
  the list and loads it again. The tool \<open>run\<close> is an argument. A Go string printed with \<open>%q\<close> is
  written out for ASCII text.
\<close>

section \<open>The code\<close>

definition hex_digit :: "nat \<Rightarrow> char" where
  "hex_digit d = char_of (if d < 10 then 48 + d else 87 + d)"

definition quote_char :: "char \<Rightarrow> string" where
  "quote_char c =
     (let n = (of_char c :: nat); bs = CHR 0x5C in
      if c = CHR 0x22 \<or> c = bs then [bs, c]
      else if n = 7 then [bs, CHR ''a''] else if n = 8 then [bs, CHR ''b''] else if n = 12 then [bs, CHR ''f'']
      else if n = 10 then [bs, CHR ''n''] else if n = 13 then [bs, CHR ''r''] else if n = 9 then [bs, CHR ''t'']
      else if n = 11 then [bs, CHR ''v'']
      else if n < 32 \<or> n = 127 then [bs, CHR ''x'', hex_digit (n div 16), hex_digit (n mod 16)]
      else [c])"

definition go_quote :: "string \<Rightarrow> string" where
  "go_quote s = [CHR 0x22] @ concat (map quote_char s) @ [CHR 0x22]"

definition getPfRules :: "'s tool \<Rightarrow> string \<Rightarrow> 's \<Rightarrow> (filter_error + string list) \<times> 's" where
  "getPfRules run anchor s =
     (case run [''pfctl'', ''-a'', anchor, ''-s'', ''rules''] s of
        ((False, out), s1) \<Rightarrow> (Inl ToolFailed, s1)
      | ((True, out), s1) \<Rightarrow>
          (Inr (filter (\<lambda>t. prefix ''block'' t) (map trim_space (split_at newline out))), s1))"

definition pf_load_command :: "string \<Rightarrow> string \<Rightarrow> string list" where
  "pf_load_command anchor rules =
     [''sh'', ''-c'', ''echo '' @ go_quote rules @ '' | sudo /sbin/pfctl -a '' @ anchor @ '' -f -'']"

definition pfLoadRules :: "'s tool \<Rightarrow> string \<Rightarrow> string \<Rightarrow> 's \<Rightarrow> 's outcome" where
  "pfLoadRules run anchor rules s =
     (let ((ok, out), s1) = run (pf_load_command anchor rules) s in (if ok then None else Some ToolFailed, s1))"

definition verifyRuleExactMatch :: "'s tool \<Rightarrow> string \<Rightarrow> string \<Rightarrow> 's \<Rightarrow> 's outcome" where
  "verifyRuleExactMatch run anchor expectedRule s =
     (case run [''/sbin/pfctl'', ''-a'', anchor, ''-s'', ''rules''] s of
        ((False, out), s1) \<Rightarrow> (Some ToolFailed, s1)
      | ((True, out), s1) \<Rightarrow>
          (if sublist (trim_space expectedRule) (trim_space out) then None else Some VerifyFailed, s1))"

definition containsRule :: "string list \<Rightarrow> string \<Rightarrow> bool" where
  "containsRule rules target \<longleftrightarrow> list_ex (\<lambda>r. trim_space r = trim_space target) rules"

definition pf_rule :: "string \<Rightarrow> int \<Rightarrow> string" where
  "pf_rule dstAddr dstPort =
     ''block drop out quick inet proto tcp from any to '' @ dstAddr @ '' port = '' @ dec_int dstPort @ '' flags R/R''"

definition pf_AddTcpClientFiltering :: "'s tool \<Rightarrow> string \<Rightarrow> string \<Rightarrow> int \<Rightarrow> 's \<Rightarrow> 's outcome" where
  "pf_AddTcpClientFiltering run anchor dstAddr dstPort s =
     (case getPfRules run anchor s of
        (Inl e, s1) \<Rightarrow> (Some e, s1)
      | (Inr currentRules, s1) \<Rightarrow>
          let newRule = pf_rule dstAddr dstPort;
              rules = (if containsRule currentRules newRule then currentRules else currentRules @ [newRule])
          in (case pfLoadRules run anchor (join_with [newline] rules) s1 of
               (Some e, s2) \<Rightarrow> (Some e, s2)
             | (None, s2) \<Rightarrow> verifyRuleExactMatch run anchor newRule s2))"

definition pf_RemoveTcpClientFiltering :: "'s tool \<Rightarrow> string \<Rightarrow> string \<Rightarrow> int \<Rightarrow> 's \<Rightarrow> 's outcome" where
  "pf_RemoveTcpClientFiltering run anchor dstAddr dstPort s =
     (case getPfRules run anchor s of
        (Inl e, s1) \<Rightarrow> (Some e, s1)
      | (Inr currentRules, s1) \<Rightarrow>
          let updatedRules = filter (\<lambda>r. trim_space r \<noteq> trim_space (pf_rule dstAddr dstPort)) currentRules
          in pfLoadRules run anchor (join_with [newline] updatedRules @ [newline]) s1)"

definition pf_FinishFiltering :: "'s tool \<Rightarrow> string \<Rightarrow> 's \<Rightarrow> 's outcome" where
  "pf_FinishFiltering run anchor s =
     (let ((ok, out), s1) = run [''pfctl'', ''-a'', anchor, ''-F'', ''rules''] s in (if ok then None else Some ToolFailed, s1))"

definition isPFEnabled :: "'s tool \<Rightarrow> 's \<Rightarrow> (filter_error + bool) \<times> 's" where
  "isPFEnabled run s =
     (case run [''pfctl'', ''-s'', ''info''] s of
        ((False, out), s1) \<Rightarrow> (Inl ToolFailed, s1)
      | ((True, out), s1) \<Rightarrow> (Inr (sublist ''Status: Enabled'' out), s1))"

definition isLibpcapInstalled :: "'s tool \<Rightarrow> 's \<Rightarrow> 's outcome" where
  "isLibpcapInstalled run s =
     (let ((ok, out), s1) = run [''which'', ''tcpdump''] s
      in (if \<not> ok \<or> trim_space out = [] then Some ToolFailed else None, s1))"

definition pfCheckAnchor :: "string option \<Rightarrow> string \<Rightarrow> filter_error + bool" where
  \<comment> \<open>\<open>conf\<close>: the text of \<open>/etc/pf.conf\<close>, if it can be read\<close>
  "pfCheckAnchor conf anchor =
     (case conf of None \<Rightarrow> Inl ToolFailed
      | Some d \<Rightarrow> Inr (sublist (''anchor '' @ [CHR 0x22] @ anchor @ [CHR 0x22]) d))"

record mac_filter =
  mac_anchor :: string
  mac_udp :: udpServerFilter

definition mac_NewFilter :: "'s tool \<Rightarrow> string option \<Rightarrow> string \<Rightarrow> 's \<Rightarrow> (filter_error + mac_filter) \<times> 's" where
  "mac_NewFilter run conf identifier s =
     (case isPFEnabled run s of
        (Inl e, s1) \<Rightarrow> (Inl FilterDisabled, s1)
      | (Inr False, s1) \<Rightarrow> (Inl FilterDisabled, s1)
      | (Inr True, s1) \<Rightarrow>
          (case isLibpcapInstalled run s1 of
            (Some e, s2) \<Rightarrow> (Inl e, s2)
          | (None, s2) \<Rightarrow>
              (case pfCheckAnchor conf identifier of
                Inl e \<Rightarrow> (Inl e, s2)
              | Inr False \<Rightarrow> (Inl AnchorMissing, s2)
              | Inr True \<Rightarrow> (Inr \<lparr> mac_anchor = identifier, mac_udp = NewUdpServerFilter \<rparr>, s2))))"

section \<open>Lemmas\<close>

definition line_text :: "string \<Rightarrow> bool" where
  \<comment> \<open>the text of one rule: it starts and ends with no space and holds no line break\<close>
  "line_text r \<longleftrightarrow> r \<noteq> [] \<and> newline \<notin> set r \<and> \<not> is_space (hd r) \<and> \<not> is_space (last r)"

lemma trim_line [simp]: "line_text r \<Longrightarrow> trim_space r = r"
proof -
  assume r: "line_text r"
  have "dropWhile is_space r = r" using r by (cases r) (simp_all add: line_text_def)
  moreover have "dropWhile is_space (rev r) = rev r" using r by (cases r rule: rev_cases) (simp_all add: line_text_def)
  ultimately show ?thesis by (simp add: trim_space_def)
qed

lemma split_line: "newline \<notin> set l \<Longrightarrow> split_at newline (l @ newline # rest) = l # split_at newline rest"
  by (induction l) (auto split: list.splits)

lemma split_last_line: "newline \<notin> set l \<Longrightarrow> split_at newline l = [l]"
  by (induction l) (auto split: list.splits)

lemma split_join:
  "rs \<noteq> [] \<Longrightarrow> \<forall>r \<in> set rs. newline \<notin> set r \<Longrightarrow> split_at newline (join_with [newline] rs) = rs"
  by (induction "[newline]" rs rule: join_with.induct) (auto simp: split_line split_last_line)

lemma split_join_newline:
  "rs \<noteq> [] \<Longrightarrow> \<forall>r \<in> set rs. newline \<notin> set r \<Longrightarrow> split_at newline (join_with [newline] rs @ [newline]) = rs @ [[]]"
  by (induction "[newline]" rs rule: join_with.induct) (auto simp: split_line)

definition pf_tool :: "'s tool \<Rightarrow> string \<Rightarrow> ('s \<Rightarrow> string list) \<Rightarrow> bool" where
  \<comment> \<open>the documented behaviour of \<open>pfctl\<close> on the rules of an anchor: \<open>-s rules\<close> prints one per line
     and changes nothing, loading a text makes its lines that are not empty the rules\<close>
  "pf_tool run anchor rules \<longleftrightarrow>
     (\<forall>s. \<forall>prog \<in> {''pfctl'', ''/sbin/pfctl''}.
        run [prog, ''-a'', anchor, ''-s'', ''rules''] s = ((True, join_with [newline] (rules s) @ [newline]), s))
     \<and> (\<forall>text s. \<exists>out s'. run (pf_load_command anchor text) s = ((True, out), s')
          \<and> rules s' = filter (\<lambda>l. l \<noteq> []) (split_at newline text))"

lemma rules_read:
  assumes "pf_tool run anchor rules" "\<forall>r \<in> set (rules s). line_text r \<and> prefix ''block'' r"
  shows "getPfRules run anchor s = (Inr (rules s), s)"
proof -
  have "filter (prefix ''block'') (map trim_space (split_at newline (join_with [newline] (rules s) @ [newline]))) = rules s"
  proof (cases "rules s = []")
    case True
    have "trim_space [] = []" by (simp add: trim_space_def)
    then show ?thesis using True by simp
  next
    case False
    have "map trim_space (rules s) = rules s" using assms(2) by (simp add: map_idI)
    moreover have "trim_space [] = []" by (simp add: trim_space_def)
    ultimately show ?thesis
      using False assms(2) split_join_newline [OF False] by (simp add: line_text_def filter_id_conv)
  qed
  then show ?thesis using assms(1) by (simp add: getPfRules_def pf_tool_def)
qed

lemma rules_loaded:
  assumes "pf_tool run anchor rules" "\<forall>r \<in> set rs. line_text r" "text = join_with [newline] rs \<or> text = join_with [newline] rs @ [newline]"
  shows "\<exists>s'. pfLoadRules run anchor text s = (None, s') \<and> rules s' = rs"
proof -
  obtain out s' where l: "run (pf_load_command anchor text) s = ((True, out), s')" "rules s' = filter (\<lambda>l. l \<noteq> []) (split_at newline text)"
    using assms(1) unfolding pf_tool_def by blast
  have ne: "filter (\<lambda>l. l \<noteq> []) rs = rs" using assms(2) by (auto simp: line_text_def filter_id_conv)
  have "filter (\<lambda>l. l \<noteq> []) (split_at newline text) = rs"
  proof (cases "rs = []")
    case False
    then show ?thesis using assms(2,3) split_join [OF False] split_join_newline [OF False] ne by (auto simp: line_text_def)
  qed (use assms(3) in auto)
  then show ?thesis using l by (simp add: pfLoadRules_def)
qed

lemma join_snoc: "join_with sep (rs @ [r]) = (if rs = [] then r else join_with sep rs @ sep @ r)"
proof (induction rs)
  case (Cons a rs)
  then show ?case by (cases rs) auto
qed simp

lemma hd_join: "rs \<noteq> [] \<Longrightarrow> \<forall>r \<in> set rs. r \<noteq> [] \<Longrightarrow> join_with sep rs \<noteq> [] \<and> hd (join_with sep rs) = hd (hd rs)"
  by (cases rs rule: remdups_adj.cases) auto

lemma trim_with_newline:
  assumes "x \<noteq> []" "\<not> is_space (hd x)" "\<not> is_space (last x)"
  shows "trim_space (x @ [newline]) = x"
proof -
  have "dropWhile is_space (x @ [newline]) = x @ [newline]" using assms(1,2) by (cases x) simp_all
  moreover have "is_space newline" by (simp add: is_space_def newline_def)
  moreover have "dropWhile is_space (rev x) = rev x" using assms(1,3) by (cases x rule: rev_cases) simp_all
  ultimately show ?thesis by (simp add: trim_space_def)
qed

lemma new_rule_printed:
  assumes "\<forall>r \<in> set (rs @ [r]). line_text r"
  shows "sublist r (trim_space (join_with [newline] (rs @ [r]) @ [newline]))"
proof -
  have ne: "\<forall>r \<in> set (rs @ [r]). r \<noteq> []" and r: "r \<noteq> []" "\<not> is_space (last r)" using assms by (auto simp: line_text_def)
  have "hd (rs @ [r]) \<in> set (rs @ [r])" by (cases rs) auto
  then have "\<not> is_space (hd (hd (rs @ [r])))" using assms unfolding line_text_def by blast
  then have "trim_space (join_with [newline] (rs @ [r]) @ [newline]) = join_with [newline] (rs @ [r])"
    using hd_join [of "rs @ [r]" "[newline]"] ne r by (intro trim_with_newline) (simp_all add: join_snoc)
  moreover have "suffix r (join_with [newline] (rs @ [r]))" by (simp add: join_snoc suffix_def)
  ultimately show ?thesis by (simp add: suffix_imp_sublist)
qed

lemma dec_int_no_newline: "newline \<notin> set (dec_int n)"
proof -
  have "newline \<notin> set (dec m)" for m using dec_digits [of newline m] by (auto simp: newline_def)
  moreover have "newline \<noteq> CHR ''-''" by (simp add: newline_def)
  ultimately show ?thesis by (simp add: dec_int_def)
qed

lemma pf_rule_line: "newline \<notin> set dstAddr \<Longrightarrow> line_text (pf_rule dstAddr dstPort) \<and> prefix ''block'' (pf_rule dstAddr dstPort)"
  by (simp add: line_text_def pf_rule_def dec_int_no_newline) (simp add: newline_def is_space_def)

section \<open>Properties\<close>



fun hex_value :: "char \<Rightarrow> nat" where
  "hex_value c = (let n = of_char c in if n < 58 then n - 48 else n - 87)"

definition unescape_char :: "char \<Rightarrow> char" where
  "unescape_char d = (if d = CHR ''a'' then CHR 0x07 else if d = CHR ''b'' then CHR 0x08 else if d = CHR ''f'' then CHR 0x0C
     else if d = CHR ''n'' then CHR 0x0A else if d = CHR ''r'' then CHR 0x0D else if d = CHR ''t'' then CHR 0x09
     else if d = CHR ''v'' then CHR 0x0B else d)"

fun unescape :: "string \<Rightarrow> string" where
  \<comment> \<open>the text of a quoted string, from behind its opening quote\<close>
  "unescape (c # cs) =
     (if c = CHR 0x22 then []
      else if c \<noteq> CHR 0x5C then c # unescape cs
      else case cs of
          d # ds \<Rightarrow>
            if d = CHR ''x'' then (case ds of h # l # rest \<Rightarrow> char_of (16 * hex_value h + hex_value l) # unescape rest | _ \<Rightarrow> [])
            else unescape_char d # unescape ds
        | [] \<Rightarrow> [])"
| "unescape [] = []"

lemma hex_value_digit: "d < 16 \<Longrightarrow> hex_value (hex_digit d) = d"
  by (simp add: hex_digit_def)

lemma quote_controls:
  "quote_char (CHR 0x07) = [CHR 0x5C, CHR ''a'']" "quote_char (CHR 0x08) = [CHR 0x5C, CHR ''b'']"
  "quote_char (CHR 0x09) = [CHR 0x5C, CHR ''t'']" "quote_char (CHR 0x0A) = [CHR 0x5C, CHR ''n'']"
  "quote_char (CHR 0x0B) = [CHR 0x5C, CHR ''v'']" "quote_char (CHR 0x0C) = [CHR 0x5C, CHR ''f'']"
  "quote_char (CHR 0x0D) = [CHR 0x5C, CHR ''r'']"
  by code_simp+

lemma control_chars:
  "char_of (7 :: nat) = CHR 0x07" "char_of (8 :: nat) = CHR 0x08" "char_of (9 :: nat) = CHR 0x09" "char_of (10 :: nat) = CHR 0x0A"
  "char_of (11 :: nat) = CHR 0x0B" "char_of (12 :: nat) = CHR 0x0C" "char_of (13 :: nat) = CHR 0x0D"
  by code_simp+

lemma unescape_quoted: "unescape (quote_char c @ rest) = c # unescape rest"
proof -
  define n where "n = (of_char c :: nat)"
  have c: "c = char_of n" "n < 256" by (simp_all add: n_def)
  consider "n < 32 \<or> n = 127" "n \<notin> {7, 8, 9, 10, 11, 12, 13}" | "n \<in> {7, 8, 9, 10, 11, 12, 13}" | "n \<ge> 32" "n \<noteq> 127" by fastforce
  then show ?thesis
  proof cases
    case 1
    have "c \<noteq> CHR 0x22" "c \<noteq> CHR 0x5C" using 1(1) by (auto simp: n_def)
    then have "quote_char c = [CHR 0x5C, CHR ''x'', hex_digit (n div 16), hex_digit (n mod 16)]"
      using 1 by (auto simp: quote_char_def Let_def n_def)
    moreover have "16 * (n div 16) + n mod 16 = n" by simp
    ultimately show ?thesis using c hex_value_digit [of "n div 16"] hex_value_digit [of "n mod 16"] by (simp del: hex_value.simps)
  next
    case 2
    then have "c \<in> {CHR 0x07, CHR 0x08, CHR 0x09, CHR 0x0A, CHR 0x0B, CHR 0x0C, CHR 0x0D}"
      unfolding c(1) by (auto simp: control_chars)
    then show ?thesis by (elim insertE) (simp_all add: quote_controls unescape_char_def)
  next
    case 3
    then have "quote_char c = (if c = CHR 0x22 \<or> c = CHR 0x5C then [CHR 0x5C, c] else [c])"
      by (auto simp: quote_char_def Let_def n_def)
    then show ?thesis by (auto simp: unescape_char_def)
  qed
qed

lemma unescape_go_quote: "unescape (tl (go_quote s @ rest)) = s"
proof -
  have "unescape (concat (map quote_char s) @ CHR 0x22 # rest) = s"
    by (induction s) (simp_all add: unescape_quoted)
  then show ?thesis by (simp add: go_quote_def)
qed

definition list_anchor :: "string list tool" where
  \<comment> \<open>an anchor kept as a list of lines\<close>
  "list_anchor args rules =
     (case args of
        [sh, flag, cmd] \<Rightarrow> ((True, []), filter (\<lambda>l. l \<noteq> []) (split_at newline (unescape (tl (drop 5 cmd)))))
      | _ \<Rightarrow> ((True, join_with [newline] rules @ [newline]), rules))"

lemma list_anchor_tool: "pf_tool list_anchor anchor (\<lambda>rules. rules)"
proof -
  have "drop 5 (''echo '' @ x) = x" for x :: string by simp
  then show ?thesis
    using unescape_go_quote by (simp add: pf_tool_def list_anchor_def pf_load_command_def)
qed


end
