(* ===== verification/Filter_Win.thy ===== *)
theory Filter_Win
  imports Filter_Common
begin

text \<open>
  \<open>filter/filter-win.go\<close>: the filter over WinDivert, which keeps the set of rules itself. The
  answers of \<open>divert.Open\<close> and the packets received are arguments. The loops that filter are
  goroutines: each is in its \<open>select\<close>, or it has seen the stop channel closed and waits for the
  mutex in its deferred function. A call that waits for a mutex nobody will release is \<open>None\<close>.
\<close>

section \<open>The code\<close>

datatype loop_state = Filtering | Stopping

record win_filter =
  win_handles :: "bool list"
    \<comment> \<open>the handles opened, and whether each is open\<close>
  handle :: "nat option"
  stopChans :: "bool list"
    \<comment> \<open>the stop channels made, and whether each is closed\<close>
  stopChan :: "nat option"
  isRunning :: bool
  ruleSet :: "string list"
  loops :: "loop_state list"
  mutexHeld :: bool

definition isNpcapInstalled :: "bool \<times> string \<Rightarrow> bool" where
  \<comment> \<open>of the success and the output of \<open>sc query npcap\<close>\<close>
  "isNpcapInstalled sc \<longleftrightarrow> fst sc \<and> sublist ''RUNNING'' (snd sc)"

definition checkDependencies :: "bool \<Rightarrow> bool \<times> string \<Rightarrow> bool" where
  \<comment> \<open>\<open>opens\<close>: whether a WinDivert handle can be opened\<close>
  "checkDependencies opens sc \<longleftrightarrow> opens \<and> isNpcapInstalled sc"

definition win_NewFilter :: "bool \<Rightarrow> bool \<times> string \<Rightarrow> win_filter option" where
  \<comment> \<open>\<open>None\<close>: a dependency is missing, which ends the program\<close>
  "win_NewFilter opens sc =
     (if \<not> checkDependencies opens sc then None
      else Some \<lparr> win_handles = [], handle = None, stopChans = [], stopChan = None, isRunning = False, ruleSet = [],
             loops = [], mutexHeld = False \<rparr>)"

definition rule_key :: "string \<Rightarrow> int \<Rightarrow> string" where
  "rule_key adr prt = adr @ '':'' @ dec_int prt"

definition open_handle :: "win_filter \<Rightarrow> win_filter" where
  "open_handle f = f\<lparr> win_handles := win_handles f @ [True] \<rparr>"

definition start_loop :: "nat \<Rightarrow> win_filter \<Rightarrow> win_filter" where
  \<comment> \<open>\<open>handle\<close>, \<open>stopChan\<close> and \<open>isRunning\<close> set, the loop started\<close>
  "start_loop h f = f\<lparr> handle := Some h, stopChan := Some (length (stopChans f)), stopChans := stopChans f @ [False],
     isRunning := True, loops := loops f @ [Filtering] \<rparr>"

definition win_AddTcpClientFiltering :: "bool \<Rightarrow> string \<Rightarrow> int \<Rightarrow> win_filter \<Rightarrow> (filter_error option \<times> win_filter) option" where
  "win_AddTcpClientFiltering opens dst prt f =
     (if mutexHeld f then None
      else let k = rule_key dst prt in
        if k \<in> set (ruleSet f) then Some (Some RuleExists, f)
        else if isRunning f then Some (None, f\<lparr> ruleSet := k # ruleSet f \<rparr>)
        else if \<not> opens then Some (Some DivertFailed, f)
        else let f1 = start_loop (length (win_handles f)) (open_handle f)
             in Some (None, f1\<lparr> ruleSet := k # ruleSet f1 \<rparr>))"

definition win_FinishFiltering :: "win_filter \<Rightarrow> (filter_error option \<times> win_filter) go option" where
  \<comment> \<open>closing a closed channel panics\<close>
  "win_FinishFiltering f =
     (if mutexHeld f then None
      else if \<not> isRunning f then Some (Return (Some NotRunning, f))
      else case stopChan f of None \<Rightarrow> Some Panic
      | Some c \<Rightarrow> if stopChans f ! c then Some Panic
                 else Some (Return (None, f\<lparr> stopChans := (stopChans f)[c := True], isRunning := False, ruleSet := [] \<rparr>)))"

definition win_RemoveTcpClientFiltering :: "string \<Rightarrow> int \<Rightarrow> win_filter \<Rightarrow> (filter_error option \<times> win_filter) go option" where
  \<comment> \<open>the return for a missing rule does not unlock\<close>
  "win_RemoveTcpClientFiltering dst prt f =
     (if mutexHeld f then None
      else let k = rule_key dst prt in
        if k \<notin> set (ruleSet f) then Some (Return (Some RuleNotFound, f\<lparr> mutexHeld := True \<rparr>))
        else let f1 = f\<lparr> ruleSet := removeAll k (ruleSet f) \<rparr>
             in if ruleSet f1 = []
                then (case win_FinishFiltering f1 of
                    None \<Rightarrow> None | Some Panic \<Rightarrow> Some Panic | Some Fatal \<Rightarrow> Some Fatal
                  | Some (Return (_, f2)) \<Rightarrow> Some (Return (None, f2)))
                else Some (Return (None, f1)))"

definition win_AddTcpServerFiltering :: "bool \<Rightarrow> string \<Rightarrow> int \<Rightarrow> win_filter \<Rightarrow> (filter_error option \<times> win_filter) option" where
  "win_AddTcpServerFiltering opens src prt f =
     (if mutexHeld f then None
      else let k = rule_key src prt in
        if k \<in> set (ruleSet f) then Some (Some RuleExists, f)
        else if \<not> opens then Some (Some DivertFailed, f)
        else let f1 = open_handle f;
                 f2 = (if \<not> isRunning f1 then start_loop (length (win_handles f)) f1 else f1)
             in Some (None, f2\<lparr> ruleSet := k # ruleSet f2 \<rparr>))"

definition win_RemoveTcpServerFiltering :: "string \<Rightarrow> int \<Rightarrow> win_filter \<Rightarrow> (filter_error option \<times> win_filter) go option" where
  "win_RemoveTcpServerFiltering src prt f =
     (if mutexHeld f then None
      else let k = rule_key src prt in
        if k \<notin> set (ruleSet f) then Some (Return (Some RuleNotFound, f))
        else let f1 = f\<lparr> ruleSet := removeAll k (ruleSet f) \<rparr>
             in if ruleSet f1 = []
                then (case win_FinishFiltering f1 of
                    None \<Rightarrow> None | Some Panic \<Rightarrow> Some Panic | Some Fatal \<Rightarrow> Some Fatal
                  | Some (Return (_, f2)) \<Rightarrow> Some (Return (None, f2)))
                else Some (Return (None, f1)))"

datatype received = RecvFailed | NotTcp | TcpReset string int
  \<comment> \<open>what \<open>Recv\<close> and \<open>gopacket\<close> give: a TCP packet with its destination\<close>

definition loop_filters :: "received \<Rightarrow> win_filter \<Rightarrow> bool" where
  \<comment> \<open>one packet in \<open>runFilteringLoop\<close>: whether it is sent on\<close>
  "loop_filters r f =
     (case r of TcpReset dst prt \<Rightarrow> rule_key dst prt \<notin> set (ruleSet f) | _ \<Rightarrow> False)"

definition loop_sees_stop :: "nat \<Rightarrow> win_filter \<Rightarrow> win_filter" where
  \<comment> \<open>loop \<open>i\<close> finds the stop channel of the moment closed\<close>
  "loop_sees_stop i f =
     (case stopChan f of
        Some c \<Rightarrow> if stopChans f ! c \<and> loops f ! i = Filtering then f\<lparr> loops := (loops f)[i := Stopping] \<rparr> else f
      | None \<Rightarrow> f)"

definition loop_ends :: "nat \<Rightarrow> win_filter \<Rightarrow> win_filter option" where
  \<comment> \<open>the deferred function of loop \<open>i\<close>, which closes the handle of the moment\<close>
  "loop_ends i f =
     (if mutexHeld f then None
      else case handle f of None \<Rightarrow> None
      | Some h \<Rightarrow> Some (f\<lparr> win_handles := (win_handles f)[h := False], isRunning := False, loops := (loops f)[i := Stopping] \<rparr>))"

section \<open>Properties\<close>

lemma rule_key_inj: "CHR '':'' \<notin> set a \<Longrightarrow> CHR '':'' \<notin> set b \<Longrightarrow> rule_key a m = rule_key b n \<longleftrightarrow> a = b \<and> m = n"
  using key_split [of a "dec_int m" b "dec_int n"] by (auto simp: rule_key_def dest: dec_int_inj)

text \<open>
  Removing a client rule that is not there takes the filter's mutex for good: the call reports the
  missing rule, and from then on no call on the filter returns, the one that finishes included.
\<close>

theorem missing_rule_locks_filter:
  assumes "\<not> mutexHeld f" "rule_key dst prt \<notin> set (ruleSet f)"
  shows "\<exists>f'. win_RemoveTcpClientFiltering dst prt f = Some (Return (Some RuleNotFound, f'))
    \<and> win_AddTcpClientFiltering opens a p f' = None \<and> win_AddTcpServerFiltering opens a p f' = None
    \<and> win_RemoveTcpClientFiltering a p f' = None \<and> win_RemoveTcpServerFiltering a p f' = None
    \<and> win_FinishFiltering f' = None"
  using assms
  by (intro exI [of _ "f\<lparr> mutexHeld := True \<rparr>"])
    (simp add: win_RemoveTcpClientFiltering_def win_AddTcpClientFiltering_def win_AddTcpServerFiltering_def
      win_RemoveTcpServerFiltering_def win_FinishFiltering_def Let_def)

theorem missing_rule_locks_filter_witness:
  "\<exists>f f'. win_NewFilter True (True, ''RUNNING'') = Some f \<and> win_RemoveTcpClientFiltering ''10.0.0.2'' 8901 f = Some (Return (Some RuleNotFound, f'))
    \<and> win_FinishFiltering f' = None"
proof -
  obtain f where f: "win_NewFilter True (True, ''RUNNING'') = Some f" "\<not> mutexHeld f" "ruleSet f = []" by (auto simp: win_NewFilter_def checkDependencies_def isNpcapInstalled_def)
  then show ?thesis using missing_rule_locks_filter [of f "''10.0.0.2''" 8901 True "''10.0.0.2''" 1] by auto
qed

text \<open>
  A filter that is restarted can lose its new rule: the loop that was told to stop runs its deferred
  function after the rule was added, closes the new handle and marks the filter as not running, so
  the rule is in the set while nothing filters, and finishing reports that there is nothing to stop.
\<close>

theorem restart_race_stops_new_rule:
  assumes "\<not> mutexHeld f" "isRunning f" "ruleSet f = [rule_key a m]" "stopChan f = Some c" "\<not> stopChans f ! c"
    and "c < length (stopChans f)" "i < length (loops f)" "loops f ! i = Filtering"
  shows "\<exists>f1 f2 f3 f4. win_RemoveTcpClientFiltering a m f = Some (Return (None, f1)) \<and> f2 = loop_sees_stop i f1
    \<and> win_AddTcpClientFiltering True b n f2 = Some (None, f3) \<and> isRunning f3 \<and> loop_ends i f3 = Some f4
    \<and> ruleSet f4 = [rule_key b n] \<and> \<not> isRunning f4 \<and> (\<forall>h. handle f4 = Some h \<longrightarrow> \<not> win_handles f4 ! h)
    \<and> win_FinishFiltering f4 = Some (Return (Some NotRunning, f4))"
proof -
  define f1 where "f1 = f\<lparr> stopChans := (stopChans f)[c := True], isRunning := False, ruleSet := [] \<rparr>"
  define f2 where "f2 = f1\<lparr> loops := (loops f)[i := Stopping] \<rparr>"
  let ?h = "length (win_handles f)"
  define f3 where "f3 = (start_loop ?h (open_handle f2))\<lparr> ruleSet := [rule_key b n] \<rparr>"
  define f4 where "f4 = f3\<lparr> win_handles := (win_handles f3)[?h := False], isRunning := False, loops := (loops f3)[i := Stopping] \<rparr>"
  have "win_RemoveTcpClientFiltering a m f = Some (Return (None, f1))"
    using assms by (simp add: win_RemoveTcpClientFiltering_def win_FinishFiltering_def f1_def Let_def)
  moreover have "f2 = loop_sees_stop i f1" using assms by (simp add: loop_sees_stop_def f1_def f2_def)
  moreover have "win_AddTcpClientFiltering True b n f2 = Some (None, f3)"
    using assms by (simp add: win_AddTcpClientFiltering_def f3_def f2_def f1_def start_loop_def open_handle_def Let_def)
  moreover have "loop_ends i f3 = Some f4"
    using assms by (simp add: loop_ends_def f4_def f3_def f2_def f1_def start_loop_def open_handle_def)
  moreover have "isRunning f3" "ruleSet f4 = [rule_key b n]" "\<not> isRunning f4" "\<not> mutexHeld f4"
    "\<forall>h. handle f4 = Some h \<longrightarrow> \<not> win_handles f4 ! h"
    using assms by (simp_all add: f4_def f3_def f2_def f1_def start_loop_def open_handle_def)
  ultimately show ?thesis by (auto simp: win_FinishFiltering_def)
qed

theorem restart_race_stops_new_rule_witness:
  "\<exists>f f1 f3 f4. win_AddTcpClientFiltering True ''10.0.0.2'' 80 (the (win_NewFilter True (True, ''RUNNING''))) = Some (None, f)
    \<and> win_RemoveTcpClientFiltering ''10.0.0.2'' 80 f = Some (Return (None, f1))
    \<and> win_AddTcpClientFiltering True ''10.0.0.3'' 80 (loop_sees_stop 0 f1) = Some (None, f3)
    \<and> loop_ends 0 f3 = Some f4 \<and> ruleSet f4 = [rule_key ''10.0.0.3'' 80] \<and> \<not> isRunning f4"
proof -
  obtain f where f: "win_AddTcpClientFiltering True ''10.0.0.2'' 80 (the (win_NewFilter True (True, ''RUNNING''))) = Some (None, f)"
    "\<not> mutexHeld f" "isRunning f" "ruleSet f = [rule_key ''10.0.0.2'' 80]" "stopChan f = Some 0" "stopChans f = [False]"
    "loops f = [Filtering]"
    by (simp add: win_AddTcpClientFiltering_def win_NewFilter_def checkDependencies_def isNpcapInstalled_def start_loop_def open_handle_def Let_def)
  show ?thesis using restart_race_stops_new_rule [OF f(2-5), of 0 "''10.0.0.3''" 80] f by auto
qed

end
