(* ===== verification/Spec2Isabelle.thy ===== *)
theory Spec2Isabelle
  imports Prelude Go_Text Seq_Arith Port_Pool Payload_Pool Conn_Types Checksum_Code Packet_Marshal Packet_Unmarshal Sack Stores Resend Conn_Data Conn_Signal Service
    Pconn Pconn_Ports Pconn_Frames Handshake Core Config Filter_Common Filter_Linux Filter_Mac Filter_Win
begin

text \<open>
  Pseudo-TCP (github.com/Clouded-Sabre/Pseudo-TCP) is a reliable, connection-oriented transport
  protocol in user space, written in Go, that sends segments in TCP's format over raw IP sockets and
  keeps the kernel's own TCP out with packet filter rules.

  \<^bold>\<open>The program and its theories.\<close> From the bottom up:

  \<^item> \<open>Prelude\<close>: the type \<open>'a go\<close> of a Go computation (\<open>Return\<close>, \<open>Panic\<close>, \<open>Fatal\<close> for
    \<open>log.Fatal\<close>), big-endian bytes, slices, and the locale \<open>machine\<close> for invariants of runs.
  \<^item> \<open>Seq_Arith\<close> (\<open>lib/utils.go\<close>): sequence numbers modulo \<open>2^32\<close>. \<open>Go_Text\<close>: the text of
    numbers and addresses that keys are made of.
  \<^item> \<open>Port_Pool\<close> (\<open>lib/portpool.go\<close>): the ring of client ports; locale \<open>fifo_pool\<close>.
    \<open>Payload_Pool\<close> (\<open>lib/pool.go\<close>): payload buffers and the answers of the ring pool.
  \<^item> \<open>Conn_Types\<close>: the records of \<open>lib/connection.go\<close> and \<open>lib/packet.go\<close>, \<open>lib/constant.go\<close>.
  \<^item> \<open>Checksum_Code\<close>, \<open>Packet_Marshal\<close>, \<open>Packet_Unmarshal\<close> (\<open>lib/packet.go\<close>): the codec.
    \<open>Stores\<close> (\<open>lib/packet.go\<close>): sent packets and packets behind a gap; locale \<open>seq_store\<close>.
  \<^item> \<open>Sack\<close>, \<open>Resend\<close>, \<open>Conn_Data\<close>, \<open>Conn_Signal\<close> (\<open>lib/connection.go\<close>): a connection.
    \<open>updateACKAndSACK\<close> keeps the acknowledgement state, \<open>Resend\<close> the retransmission, \<open>Conn_Data\<close>
    writes, receives and reads, \<open>Conn_Signal\<close> has handshakes, timers, keepalive and closing.
  \<^item> \<open>Service\<close> (\<open>lib/service.go\<close>): a listening port, with its half-open and open connections.
  \<^item> \<open>Pconn\<close> (\<open>lib/pconn.go\<close>): a protocol connection, which carries all connections between two
    addresses or all services of one: dialling, the two reading loops, the output loop, closing.
    \<open>Pconn_Ports\<close> and \<open>Pconn_Frames\<close> prove its properties; \<open>Handshake\<close> composes a dialling client
    with a service.
  \<^item> \<open>Core\<close> (\<open>lib/pcpcore.go\<close>, \<open>findLocalIP\<close>): the map of protocol connections, \<open>DialPcp\<close>,
    \<open>ListenPcp\<close>, \<open>Close\<close>.
  \<^item> \<open>Config\<close> (\<open>config/config.go\<close>): the configuration file over the defaults.
  \<^item> \<open>Filter_Common\<close>, \<open>Filter_Linux\<close>, \<open>Filter_Mac\<close>, \<open>Filter_Win\<close> (\<open>filter/\<close>): the packet filters.

  \<^bold>\<open>How the code is modelled.\<close> A struct is a record, an \<open>int\<close> an \<open>int\<close>, a fixed-width integer a
  word. A map is an association list, \<open>None\<close> when it is nil (a write then panics). Objects that the
  code shares by pointer are kept in a store (\<open>objs\<close>, \<open>pc_objs\<close>, \<open>pc_services\<close>, \<open>pconns\<close>) and
  named by their index. A channel is the list of what was sent and not received; a channel that is
  only closed is a flag. A timer is its duration and whether it was stopped; its function is a
  definition of its own (\<open>connSignalTimer_fired\<close>, \<open>keepaliveTimer_fired\<close>, \<open>resendTimer_fired\<close>,
  \<open>emptyMapTimer_fired\<close>). Each turn of a goroutine's loop is one function, the runs of a component
  are the reflexive transitive closures of \<open>conn_step\<close>, \<open>svc_step\<close>, \<open>pc_step\<close> and \<open>core_step\<close>, in
  which the turns, timers and calls come in any order. A function that waits (\<open>dial\<close>, \<open>Close\<close>) is
  cut where it waits: \<open>dial_start\<close> and \<open>dial_turn\<close>, \<open>Close\<close> and \<open>Close_timed_out\<close>. Durations are in
  nanoseconds; the clock of the time stamp option is in microseconds.

  \<^bold>\<open>What is proved.\<close> The codec: a frame that \<open>Marshal\<close> wrote is verified and parsed back, the
  checksum is the one's complement sum, \<open>Unmarshal\<close> does not panic. The data path: what is written
  arrives in order, and a lost segment is recovered; the blocks describe what was received; an ACK
  removes what it covers. Signalling: retries end, idle connections are closed, the 4-way
  termination completes, the invariants of \<open>connection\<close>, \<open>service\<close>, \<open>pconn\<close> and \<open>PcpCore\<close> hold in
  every run. Between components: a frame reaches the service or the connection it is for, the
  handshake opens both ends, the ports in use are distinct and come back, the loaded configuration
  fits the buffers, removing a filter rule undoes adding it. Further theorems show what the code does
  where that is not what it means to do, such as a segment that ends at the wrap of the sequence
  numbers, a dial that fails or a rule of nftables that is to be removed.

  \<^bold>\<open>Bounds and fuel.\<close> The only fuel is that of \<open>Unmarshal\<close>'s option loop: it takes at least one of
  at most 40 option bytes per turn, so 41 is enough, and with any amount the answer \<open>None\<close> means
  that an option of length 0 stopped it for ever (\<open>option_loop_fuel_decides\<close>). \<open>Write\<close>'s loop is a
  \<open>partial_function\<close>; it returns unless the segment limit is 0. The buffer of the reading loop has
  \<open>bufferLength\<close> bytes.

  \<^bold>\<open>Not modelled.\<close> The log, the debug footprints of the ring pool, the statistics printer and the
  example programs and tests (\<open>client/\<close>, \<open>server/\<close>, \<open>test/\<close>): input, output and flags only. Other
  code is an argument: the raw socket library (whether it opens, what it reads, whether a write
  succeeds), the ring pool (\<open>ring_pool\<close>: the elements it gives, the list of those returned), YAML
  parsing, name resolution, the network interfaces, the firewall tools (a function from a command
  line and their state) and WinDivert. A goroutine's turn is atomic, so data races inside a turn are
  not modelled; a send on a channel is taken to complete. \<open>Service.Close\<close> and the protocol
  connection's \<open>Close\<close> are modelled for peers that do not answer the FINs.
\<close>

end
